theory Spec2Isabelle
  imports Complex_Main "HOL-Library.Sublist"
begin

section \<open>Python strings\<close>

text \<open>
  A Python \<open>str\<close> is modelled by its UTF-8 bytes, a \<^typ>\<open>string\<close>. Every character the
  code tests for (\<open>/\<close>, \<open>:\<close>, \<open>?\<close>, \<open>#\<close>, \<open>@\<close>, \<open>.\<close>, ASCII letters and digits) is ASCII,
  so the tests read the same on bytes as on code points. Case mapping and whitespace
  are the ASCII ones.
\<close>

definition lstrip :: "string \<Rightarrow> string \<Rightarrow> string" where
  "lstrip chars s = dropWhile (\<lambda>c. c \<in> set chars) s"

definition rstrip :: "string \<Rightarrow> string \<Rightarrow> string" where
  "rstrip chars s = rev (dropWhile (\<lambda>c. c \<in> set chars) (rev s))"

definition startswith :: "string \<Rightarrow> string \<Rightarrow> bool" where
  "startswith s p = prefix p s"

definition endswith :: "string \<Rightarrow> string \<Rightarrow> bool" where
  "endswith s p = prefix (rev p) (rev s)"

definition is_upper :: "char \<Rightarrow> bool" where
  "is_upper c = (65 \<le> (of_char c :: nat) \<and> (of_char c :: nat) \<le> 90)"

definition is_lower :: "char \<Rightarrow> bool" where
  "is_lower c = (97 \<le> (of_char c :: nat) \<and> (of_char c :: nat) \<le> 122)"

definition is_digit :: "char \<Rightarrow> bool" where
  "is_digit c = (48 \<le> (of_char c :: nat) \<and> (of_char c :: nat) \<le> 57)"

definition upper_letters :: "string" where
  "upper_letters = ''ABCDEFGHIJKLMNOPQRSTUVWXYZ''"

definition lower_letters :: "string" where
  "lower_letters = ''abcdefghijklmnopqrstuvwxyz''"

definition lower_char :: "char \<Rightarrow> char" where
  "lower_char c = (case map_of (zip upper_letters lower_letters) c of Some l \<Rightarrow> l | None \<Rightarrow> c)"

definition lower :: "string \<Rightarrow> string" where
  "lower s = map lower_char s"

text \<open>The characters \<open>str.strip()\<close> removes, as far as they are ASCII.\<close>

definition whitespace :: "string" where
  "whitespace = [CHR 0x09, CHR 0x0A, CHR 0x0B, CHR 0x0C, CHR 0x0D,
                 CHR 0x1C, CHR 0x1D, CHR 0x1E, CHR 0x1F, CHR 0x20]"

definition strip :: "string \<Rightarrow> string" where
  "strip s = rstrip whitespace (lstrip whitespace s)"

text \<open>\<open>s.partition(c)\<close>: the text before the first \<open>c\<close>, whether \<open>c\<close> occurs, the text after it.\<close>

definition partition_at :: "char \<Rightarrow> string \<Rightarrow> string \<times> bool \<times> string" where
  "partition_at c s =
     (let pre = takeWhile (\<lambda>x. x \<noteq> c) s
      in (pre, length pre < length s, drop (Suc (length pre)) s))"

text \<open>\<open>s.rpartition(c)\<close>: the same around the last \<open>c\<close>; all of \<open>s\<close> comes last when \<open>c\<close> is absent.\<close>

definition rpartition_at :: "char \<Rightarrow> string \<Rightarrow> string \<times> bool \<times> string" where
  "rpartition_at c s =
     (let post = rev (takeWhile (\<lambda>x. x \<noteq> c) (rev s))
      in if length post < length s
         then (take (length s - length post - 1) s, True, post)
         else ([], False, s))"

text \<open>\<open>s.split(c)\<close> for a one-character separator: never empty, \<open>''''.split(c) = ['''']\<close>.\<close>

fun split_on :: "char \<Rightarrow> string \<Rightarrow> string list" where
  "split_on c [] = [[]]"
| "split_on c (x # xs) =
     (if x = c then [] # split_on c xs
      else (case split_on c xs of [] \<Rightarrow> [[x]] | w # ws \<Rightarrow> (x # w) # ws))"

section \<open>JSON values and Python objects\<close>

text \<open>
  What \<open>response.json()\<close> yields. An object is an association list in document order;
  a float is given by a rational.
\<close>

datatype json =
    JNull
  | JBool bool
  | JInt int
  | JFloat rat
  | JStr string
  | JList "json list"
  | JDict "(string \<times> json) list"

text \<open>Python's truth value of a JSON value (\<open>if x\<close>, \<open>not x\<close>, \<open>x or y\<close>).\<close>

fun truthy :: "json \<Rightarrow> bool" where
  "truthy JNull = False"
| "truthy (JBool b) = b"
| "truthy (JInt i) = (i \<noteq> 0)"
| "truthy (JFloat r) = (r \<noteq> 0)"
| "truthy (JStr s) = (s \<noteq> [])"
| "truthy (JList xs) = (xs \<noteq> [])"
| "truthy (JDict kvs) = (kvs \<noteq> [])"

fun is_list :: "json \<Rightarrow> bool" where
  "is_list (JList xs) = True"
| "is_list _ = False"

fun is_dict :: "json \<Rightarrow> bool" where
  "is_dict (JDict kvs) = True"
| "is_dict _ = False"

text \<open>
  A value a navigator method can return: a JSON value, or an instance made by
  \<open>object()\<close>, known by the number the allocator gave it. Two instances are the same
  object exactly when their numbers agree.
\<close>

datatype pyval = PJson json | PObj nat

fun truthy_py :: "pyval \<Rightarrow> bool" where
  "truthy_py (PJson j) = truthy j"
| "truthy_py (PObj n) = True"

text \<open>\<open>v is o\<close> for the instance \<open>o\<close> numbered \<open>n\<close>.\<close>

fun is_object :: "pyval \<Rightarrow> nat \<Rightarrow> bool" where
  "is_object (PObj m) n = (m = n)"
| "is_object (PJson j) n = False"

section \<open>Errors\<close>

datatype error =
    ValueError string
  | KeyError string
  | IndexError string
  | TypeError string
  | AttributeError string
  | OSError string
  | ConnectionError string
  | TimeoutError string
  | HTTPError string
  | OtherError string

section \<open>Splitting and joining URLs (\<open>urllib.parse\<close>)\<close>

record split_result =
  scheme :: string
  netloc :: string
  path :: string
  query :: string
  fragment :: string

definition scheme_char :: "char \<Rightarrow> bool" where
  "scheme_char c = (is_upper c \<or> is_lower c \<or> is_digit c \<or> c \<in> set ''+-.'')"

definition c0_control_or_space :: "char \<Rightarrow> bool" where
  "c0_control_or_space c = ((of_char c :: nat) \<le> 32)"

definition unsafe_url_byte :: "char \<Rightarrow> bool" where
  "unsafe_url_byte c = (c \<in> set [CHR 0x09, CHR 0x0D, CHR 0x0A])"

text \<open>
  The two checks of \<open>urlsplit\<close> that look inside the host (the bracketed IPv6 literal and
  the NFKC normalisation of a non-ASCII netloc) belong to the standard library; they are
  parameters, asked only where \<open>urlsplit\<close> asks them.
\<close>

record netloc_checks =
  check_bracketed_host :: "string \<Rightarrow> bool"
  checknetloc :: "string \<Rightarrow> bool"

definition isascii :: "string \<Rightarrow> bool" where
  "isascii s = list_all (\<lambda>c. (of_char c :: nat) < 128) s"

definition split_scheme :: "string \<Rightarrow> string \<times> string" where
  "split_scheme u =
     (let pre = takeWhile (\<lambda>c. c \<noteq> CHR '':'') u
      in if length pre < length u \<and> pre \<noteq> [] \<and> (is_upper (hd pre) \<or> is_lower (hd pre))
            \<and> list_all scheme_char pre
         then (lower pre, drop (Suc (length pre)) u)
         else ([], u))"

definition splitnetloc :: "string \<Rightarrow> string \<times> string" where
  "splitnetloc u =
     (let n = takeWhile (\<lambda>c. c \<notin> set ''/?#'') (drop 2 u)
      in (n, drop (2 + length n) u))"

text \<open>
  The checks on the netloc: unbalanced brackets, the bracketed host, the normalisation
  of a non-ASCII netloc. They give the message of the \<open>ValueError\<close>. (An empty netloc,
  as when the URL has no \<open>//\<close>, passes all three.)
\<close>

definition netloc_error :: "netloc_checks \<Rightarrow> string \<Rightarrow> string option" where
  "netloc_error N net =
     (if (CHR ''['' \<in> set net) \<noteq> (CHR '']'' \<in> set net) then Some ''Invalid IPv6 URL''
      else if CHR ''['' \<in> set net \<and> CHR '']'' \<in> set net
              \<and> \<not> check_bracketed_host N
                    (fst (partition_at CHR '']'' (snd (snd (partition_at CHR ''['' net)))))
      then Some ''Invalid IPv6 URL''
      else if net \<noteq> [] \<and> \<not> isascii net \<and> \<not> checknetloc N net
      then Some ''netloc contains invalid characters under NFKC normalization''
      else None)"

definition urlsplit :: "netloc_checks \<Rightarrow> string \<Rightarrow> error + split_result" where
  "urlsplit N u0 =
     (let u1 = filter (\<lambda>c. \<not> unsafe_url_byte c) (dropWhile c0_control_or_space u0);
          (sch, u2) = split_scheme u1;
          (net, u3) = (if take 2 u2 = ''//'' then splitnetloc u2 else ([], u2));
          (u4, has_frag, frag) = partition_at CHR ''#'' u3;
          (u5, has_query, qry) = partition_at CHR ''?'' u4
      in case netloc_error N net of
           Some msg \<Rightarrow> Inl (ValueError msg)
         | None \<Rightarrow> Inr \<lparr>scheme = sch, netloc = net, path = u5, query = qry, fragment = frag\<rparr>)"

definition uses_netloc :: "string list" where
  "uses_netloc = ['''', ''ftp'', ''http'', ''gopher'', ''nntp'', ''telnet'', ''imap'', ''wais'',
     ''file'', ''mms'', ''https'', ''shttp'', ''snews'', ''prospero'', ''rtsp'', ''rtsps'',
     ''rtspu'', ''rsync'', ''svn'', ''svn+ssh'', ''sftp'', ''nfs'', ''git'', ''git+ssh'',
     ''ws'', ''wss'', ''itms-services'']"

definition urlunsplit :: "split_result \<Rightarrow> string" where
  "urlunsplit p =
     (let u1 = (if netloc p \<noteq> [] \<or> (scheme p \<noteq> [] \<and> scheme p \<in> set uses_netloc
                                      \<and> take 2 (path p) \<noteq> ''//'')
                then ''//'' @ netloc p
                       @ (if path p \<noteq> [] \<and> take 1 (path p) \<noteq> ''/'' then ''/'' @ path p else path p)
                else path p);
          u2 = (if scheme p \<noteq> [] then scheme p @ '':'' @ u1 else u1);
          u3 = (if query p \<noteq> [] then u2 @ ''?'' @ query p else u2)
      in if fragment p \<noteq> [] then u3 @ ''#'' @ fragment p else u3)"

text \<open>
  \<open>SplitResult.hostname\<close>: the host between the user info and the port, lower-cased
  up to a zone identifier, \<open>None\<close> when empty.
\<close>

definition hostname :: "split_result \<Rightarrow> string option" where
  "hostname p =
     (let hostinfo = snd (snd (rpartition_at CHR ''@'' (netloc p)));
          (pre, have_open_br, bracketed) = partition_at CHR ''['' hostinfo;
          h = (if have_open_br then fst (partition_at CHR '']'' bracketed)
               else fst (partition_at CHR '':'' hostinfo))
      in if h = [] then None
         else (let (host, percent, zone) = partition_at CHR ''%'' h
               in Some (lower host @ (if percent then ''%'' else []) @ zone)))"

text \<open>
  \<open>quote(s)\<close> with the default \<open>safe='/'\<close>: letters, digits, \<open>_.-~\<close> and \<open>/\<close> stay, every other
  byte becomes \<open>%XX\<close> in upper-case hexadecimal.
\<close>

definition hex_digit :: "nat \<Rightarrow> char" where
  "hex_digit n = ''0123456789ABCDEF'' ! (n mod 16)"

definition quote_safe :: "char \<Rightarrow> bool" where
  "quote_safe c = (is_upper c \<or> is_lower c \<or> is_digit c \<or> c \<in> set ''_.-~/'')"

definition quote_char :: "char \<Rightarrow> string" where
  "quote_char c =
     (if quote_safe c then [c]
      else [CHR ''%'', hex_digit ((of_char c :: nat) div 16), hex_digit ((of_char c :: nat) mod 16)])"

definition quote :: "string \<Rightarrow> string" where
  "quote s = concat (map quote_char s)"


definition upper_char :: "char \<Rightarrow> char" where
  "upper_char c = (case map_of (zip lower_letters upper_letters) c of Some l \<Rightarrow> l | None \<Rightarrow> c)"

definition upper :: "string \<Rightarrow> string" where
  "upper s = map upper_char s"

text \<open>\<open>str(n)\<close> of an integer: its decimal digits.\<close>

fun str_nat :: "nat \<Rightarrow> string" where
  "str_nat n = (if n < 10 then [''0123456789'' ! n] else str_nat (n div 10) @ [''0123456789'' ! (n mod 10)])"

definition str_int :: "int \<Rightarrow> string" where
  "str_int i = (if i < 0 then ''-'' @ str_nat (nat (- i)) else str_nat (nat i))"

section \<open>The cache store\<close>

text \<open>
  Modelled from the spec: the class \<open>CacheConfig\<close> of module \<open>webpath.cache\<close>, which
  \<open>core.py\<close> imports and \<open>http_request\<close> calls (\<open>get\<close>, \<open>set\<close>), is not among the sources.
  The spec's data model: the key is (method, URL string); the value holds status code,
  headers, body, captured URL and stored-at timestamp; an entry is created on a 2xx
  response when a TTL is configured, read before every request, and evicted at read
  time when \<open>now - stored_at > TTL\<close>.
\<close>

record cache_entry =
  ce_status_code :: int
  ce_headers :: "(string \<times> string) list"
  ce_content :: string
  ce_url :: string
  ce_stored_at :: rat

record cache_config =
  ttl :: "rat option"
  cache_dir :: "string option"
  store :: "string \<times> string \<Rightarrow> cache_entry option"

text \<open>Modelled from the spec: \<open>CacheConfig.get\<close>, the entry read and the store after lazy expiry.\<close>

definition cache_get :: "cache_config \<Rightarrow> rat \<Rightarrow> string \<Rightarrow> string \<Rightarrow> cache_entry option \<times> cache_config" where
  "cache_get c now verb u =
     (case ttl c of
        None \<Rightarrow> (None, c)
      | Some t \<Rightarrow>
          (case store c (verb, u) of
             None \<Rightarrow> (None, c)
           | Some e \<Rightarrow>
               if now - ce_stored_at e > t
               then (None, c\<lparr>store := (store c)((verb, u) := None)\<rparr>)
               else (Some e, c)))"

section \<open>The URL builder (\<open>core.py\<close>)\<close>

text \<open>
  The slots of \<open>WebPath\<close>. The memo table \<open>_cache\<close> only saves recomputing \<open>query\<close> and
  is left out. A session is known by its number.
\<close>

record webpath =
  wp_url :: string
  wp_parts :: split_result
  wp_trailing_slash :: bool
  wp_cache_config :: "cache_config option"
  wp_allow_auto_follow :: bool
  wp_enable_logging :: bool
  wp_rate_limit :: "rat option"
  wp_last_request_time :: rat
  wp_default_headers :: "(string \<times> string) list"
  wp_retries :: "int option"
  wp_backoff :: rat
  wp_jitter :: rat
  wp_timeout :: "rat option"
  wp_session :: "nat option"

text \<open>\<open>WebPath.__init__\<close>\<close>

definition webpath_init :: "netloc_checks \<Rightarrow> string \<Rightarrow> error + webpath" where
  "webpath_init N u =
     (let u' = strip u
      in if u' = [] then Inl (ValueError ''URL cannot be empty'')
         else (case urlsplit N u' of
                 Inl e \<Rightarrow> Inl e
               | Inr parts \<Rightarrow>
                   if scheme parts = []
                   then Inl (ValueError (''URL must include scheme (http/https): '' @ u'))
                   else if scheme parts \<notin> set [''http'', ''https'']
                   then Inl (ValueError (''Only http/https schemes supported: '' @ scheme parts))
                   else if netloc parts = []
                   then Inl (ValueError (''URL must include hostname: '' @ u'))
                   else Inr \<lparr>wp_url = u', wp_parts = parts,
                             wp_trailing_slash = (endswith u' ''/'' \<and> \<not> endswith (path parts) ''/''),
                             wp_cache_config = None, wp_allow_auto_follow = False,
                             wp_enable_logging = False, wp_rate_limit = None,
                             wp_last_request_time = 0, wp_default_headers = [],
                             wp_retries = None, wp_backoff = 3 / 10, wp_jitter = 0,
                             wp_timeout = None, wp_session = None\<rparr>))"

text \<open>
  \<open>WebPath._clone\<close> builds a fresh \<open>WebPath\<close> from \<open>self._url\<close>, copies every slot but
  \<open>_url\<close>, \<open>_parts\<close>, \<open>_trailing_slash\<close> and \<open>_cache\<close> from \<open>self\<close>, then applies the updates;
  \<open>upd\<close> is that last step.
\<close>

definition clone :: "netloc_checks \<Rightarrow> webpath \<Rightarrow> (webpath \<Rightarrow> webpath) \<Rightarrow> error + webpath" where
  "clone N self upd =
     (case webpath_init N (wp_url self) of
        Inl e \<Rightarrow> Inl e
      | Inr new_path \<Rightarrow>
          Inr (upd (self\<lparr>wp_url := wp_url new_path, wp_parts := wp_parts new_path,
                         wp_trailing_slash := wp_trailing_slash new_path\<rparr>)))"

text \<open>\<open>WebPath._replace\<close>, for the patch \<open>f\<close> of the split parts.\<close>

definition replace :: "netloc_checks \<Rightarrow> webpath \<Rightarrow> (split_result \<Rightarrow> split_result) \<Rightarrow> error + webpath" where
  "replace N self f =
     (let u = urlunsplit (f (wp_parts self));
          u' = (if wp_trailing_slash self \<and> \<not> endswith u ''/'' then u @ ''/'' else u)
      in case urlsplit N u' of
           Inl e \<Rightarrow> Inl e
         | Inr parts \<Rightarrow> clone N self (\<lambda>p. p\<lparr>wp_url := u', wp_parts := parts\<rparr>))"

text \<open>\<open>WebPath.__truediv__\<close>: \<open>self / other\<close>, with \<open>seg0 = str(other)\<close>.\<close>

definition webpath_truediv :: "netloc_checks \<Rightarrow> webpath \<Rightarrow> string \<Rightarrow> error + webpath" where
  "webpath_truediv N self seg0 =
     (let seg = quote (lstrip ''/'' seg0);
          new_path = (if path (wp_parts self) \<noteq> []
                      then rstrip ''/'' (path (wp_parts self)) @ ''/'' @ seg
                      else ''/'' @ seg)
      in replace N self (\<lambda>p. p\<lparr>path := new_path\<rparr>))"

text \<open>\<open>WebPath.with_rate_limit\<close>\<close>

definition with_rate_limit :: "netloc_checks \<Rightarrow> webpath \<Rightarrow> rat \<Rightarrow> error + webpath" where
  "with_rate_limit N self requests_per_second =
     clone N self (\<lambda>p. p\<lparr>wp_rate_limit := Some requests_per_second, wp_last_request_time := 0\<rparr>)"


section \<open>Responses, the transport and the world (\<open>_http.py\<close>)\<close>

text \<open>
  A response as the transport library hands it over: \<open>json_body\<close> is what \<open>.json()\<close>
  yields on it (\<open>None\<close> when it raises), \<open>elapsed_ms\<close> is
  \<open>int(resp.elapsed.total_seconds() * 1000)\<close>, 0 when \<open>elapsed\<close> is unset. \<open>cached\<close> tells an
  instance of \<open>CachedResponse\<close> from one of the transport's own class.
\<close>

record response =
  status_code :: int
  headers :: "(string \<times> string) list"
  content :: string
  url :: string
  json_body :: "json option"
  elapsed_ms :: int
  cached :: bool

text \<open>\<open>http_request\<close> takes a \<open>WebPath\<close> or a plain string.\<close>

datatype url_arg = UStr string | UPath webpath

text \<open>\<open>WebResponse\<close>: the wrapped response and \<open>_parent\<close>, the URL object it came from.\<close>

record web_response =
  wr_response :: response
  wr_parent :: url_arg

text \<open>
  What one call into the transport library does: it returns a response, or raises an
  exception that is a \<open>requests.exceptions.ConnectionError\<close>, one that is a
  \<open>requests.exceptions.Timeout\<close> and no \<open>ConnectionError\<close>, or any other exception.
\<close>

datatype transport_outcome =
    Responded response
  | RaisedConnectionError
  | RaisedTimeout
  | Raised error

text \<open>
  How the call is issued: through the session handed in, through a fresh session with the
  retry adapter (\<open>retries\<close>, \<open>backoff\<close>, \<open>jitter\<close>) mounted, or by the module-level function.
\<close>

datatype mode = ViaSession nat | ViaRetryAdapter int rat rat | Plain

record call =
  c_time :: rat
  c_verb :: string
  c_url :: string
  c_mode :: mode

text \<open>
  The external collaborators: the transport (its answer and how long it took may depend
  on every call made before), the JSON parser, the path-query evaluator (\<open>None\<close> when it
  raises \<open>JMESPathError\<close> or \<open>ValueError\<close>), \<open>str\<close> of a float, list or object, \<open>int\<close> of a
  string (\<open>None\<close> when it raises \<open>ValueError\<close>), \<open>hashlib.new\<close> (the digest function of the
  named algorithm, \<open>None\<close> when the name is unknown), \<open>iter_content\<close> (the blocks a
  response's stream delivers for a chunk size, and the exception that ends it early,
  if any) and whether a path can be opened for writing.
\<close>

record env =
  checks :: netloc_checks
  transport :: "call list \<Rightarrow> call \<Rightarrow> transport_outcome \<times> rat"
  json_loads :: "string \<Rightarrow> json option"
  jmespath_search :: "string \<Rightarrow> json \<Rightarrow> json option"
  py_repr :: "json \<Rightarrow> string"
  py_int :: "string \<Rightarrow> int option"
  hash_new :: "string \<Rightarrow> (string \<Rightarrow> string) option"
  iter_content :: "response \<Rightarrow> nat \<Rightarrow> string list \<times> error option"
  can_open :: "string \<Rightarrow> bool"

text \<open>
  The world a request runs in: the wall clock (\<open>time.time()\<close>), the transport calls issued
  so far, oldest first, the sleeps taken, the console lines printed and the files on
  disk with their contents.
\<close>

record world =
  clock :: rat
  calls :: "call list"
  slept :: "rat list"
  console :: "string list"
  files :: "string \<Rightarrow> string option"

definition http_schemes :: "string list" where
  "http_schemes = [''http'', ''https'']"

text \<open>\<open>CachedResponse(cached)\<close>\<close>

definition cached_response :: "env \<Rightarrow> cache_entry \<Rightarrow> response" where
  "cached_response E e =
     \<lparr>status_code = ce_status_code e, headers = ce_headers e, content = ce_content e,
      url = ce_url e, json_body = json_loads E (ce_content e), elapsed_ms = 0, cached = True\<rparr>"

text \<open>Modelled from the spec: \<open>CacheConfig.set\<close>, which stores only when a TTL is configured.\<close>

definition cache_set :: "cache_config \<Rightarrow> rat \<Rightarrow> string \<Rightarrow> string \<Rightarrow> response \<Rightarrow> cache_config" where
  "cache_set c now verb u r =
     (case ttl c of
        None \<Rightarrow> c
      | Some t \<Rightarrow>
          c\<lparr>store := (store c)((verb, u) \<mapsto>
              \<lparr>ce_status_code = status_code r, ce_headers = headers r, ce_content = content r,
               ce_url = url r, ce_stored_at = now\<rparr>)\<rparr>)"

text \<open>\<open>f"{v}"\<close> of a JSON value.\<close>

definition py_format :: "env \<Rightarrow> json \<Rightarrow> string" where
  "py_format E v =
     (case v of
        JStr s \<Rightarrow> s
      | JNull \<Rightarrow> ''None''
      | JBool b \<Rightarrow> (if b then ''True'' else ''False'')
      | JInt i \<Rightarrow> str_int i
      | _ \<Rightarrow> py_repr E v)"

text \<open>The first of the keys that the object holds, with its value.\<close>

fun first_detail :: "(string \<times> json) list \<Rightarrow> string list \<Rightarrow> json option" where
  "first_detail kvs [] = None"
| "first_detail kvs (k # ks) =
     (case map_of kvs k of Some v \<Rightarrow> Some v | None \<Rightarrow> first_detail kvs ks)"

text \<open>
  The \<open>try\<close> block of \<open>_get_helpful_error_message\<close>. Only an object gives details: on a
  list or a string \<open>data[key]\<close> raises \<open>TypeError\<close>, on any other value \<open>key in data\<close> does,
  and the handler leaves \<open>error_details\<close> empty.
\<close>

definition error_details :: "env \<Rightarrow> response \<Rightarrow> string" where
  "error_details E r =
     (case json_body r of
        Some (JDict kvs) \<Rightarrow>
          (case first_detail kvs [''error'', ''message'', ''error_description'', ''detail''] of
             Some v \<Rightarrow> '' - '' @ py_format E v
           | None \<Rightarrow> [])
      | _ \<Rightarrow> [])"

text \<open>\<open>response.headers.get(name, default)\<close>; the transport's header mapping ignores case.\<close>

definition headers_get :: "(string \<times> string) list \<Rightarrow> string \<Rightarrow> string \<Rightarrow> string" where
  "headers_get hs name dflt =
     (case map_of (map (\<lambda>(k, v). (lower k, v)) hs) (lower name) of Some v \<Rightarrow> v | None \<Rightarrow> dflt)"

text \<open>\<open>_get_helpful_error_message\<close>\<close>

definition get_helpful_error_message :: "env \<Rightarrow> response \<Rightarrow> string \<Rightarrow> error + string" where
  "get_helpful_error_message E r u =
     (case urlsplit (checks E) u of
        Inl e \<Rightarrow> Inl e
      | Inr parts \<Rightarrow>
          (let host = (case hostname parts of None \<Rightarrow> ''None'' | Some h \<Rightarrow> h);
               status = status_code r;
               details = error_details E r
           in Inr (if status = 401
                   then ''Authentication failed for '' @ host @ details @ ''. Check your API credentials.''
                   else if status = 403
                   then ''Access forbidden to '' @ host @ details
                          @ ''. Check permissions or account status.''
                   else if status = 404
                   then ''Endpoint not found: '' @ u @ details
                   else if status = 429
                   then ''Rate limited by '' @ host @ ''. Retry after ''
                          @ headers_get (headers r) ''Retry-After'' ''unknown'' @ '' seconds'' @ details
                   else if status \<ge> 500
                   then ''Server error on '' @ host @ details @ ''. Try again later.''
                   else ''HTTP '' @ str_int status @ '' from '' @ host @ details)))"

text \<open>One call into the transport: it is logged with the time it is issued at.\<close>

definition perform :: "env \<Rightarrow> string \<Rightarrow> string \<Rightarrow> mode \<Rightarrow> world \<Rightarrow> transport_outcome \<times> world" where
  "perform E verb url_str m w =
     (let c = \<lparr>c_time = clock w, c_verb = verb, c_url = url_str, c_mode = m\<rparr>;
          (out, d) = transport E (calls w) c
      in (out, w\<lparr>clock := clock w + d, calls := calls w @ [c]\<rparr>))"

text \<open>Lines 434 to 440 of \<open>http_request\<close>: the rate-limit wait.\<close>

definition rate_limit_wait :: "url_arg \<Rightarrow> world \<Rightarrow> url_arg \<times> world" where
  "rate_limit_wait u w =
     (case u of
        UStr s \<Rightarrow> (u, w)
      | UPath p \<Rightarrow>
          (case wp_rate_limit p of
             None \<Rightarrow> (u, w)
           | Some r \<Rightarrow>
               if r = 0 then (u, w)
               else (let min_interval = 1 / r;
                         elapsed = clock w - wp_last_request_time p;
                         w' = (if elapsed < min_interval
                               then w\<lparr>clock := clock w + (min_interval - elapsed),
                                      slept := slept w @ [min_interval - elapsed]\<rparr>
                               else w)
                     in (UPath (p\<lparr>wp_last_request_time := clock w'\<rparr>), w'))))"

text \<open>Lines 442 to 456: the console line, when logging is enabled.\<close>

definition log_request :: "string \<Rightarrow> string \<Rightarrow> url_arg \<Rightarrow> response \<Rightarrow> world \<Rightarrow> world" where
  "log_request verb url_str u r w =
     (case u of
        UStr s \<Rightarrow> w
      | UPath p \<Rightarrow>
          if wp_enable_logging p
          then (let status_color = (if 200 \<le> status_code r \<and> status_code r < 300 then ''green''
                                    else if status_code r \<ge> 400 then ''red'' else ''yellow'')
                in w\<lparr>console := console w @
                      [upper verb @ '' '' @ url_str @ [CHR 0x20, CHR 0xE2, CHR 0x86, CHR 0x92, CHR 0x20]
                       @ ''['' @ status_color @ '']'' @ str_int (status_code r)
                       @ ''[/'' @ status_color @ ''] ('' @ str_int (elapsed_ms r) @ ''ms)'']\<rparr>)
          else w)"

text \<open>Lines 431 and 432: the cache write.\<close>

definition cache_write :: "url_arg \<Rightarrow> rat \<Rightarrow> string \<Rightarrow> string \<Rightarrow> response \<Rightarrow> url_arg" where
  "cache_write u now verb url_str r =
     (case u of
        UStr s \<Rightarrow> u
      | UPath p \<Rightarrow>
          (case wp_cache_config p of
             None \<Rightarrow> u
           | Some c \<Rightarrow>
               if 200 \<le> status_code r \<and> status_code r < 300
               then UPath (p\<lparr>wp_cache_config := Some (cache_set c now verb url_str r)\<rparr>)
               else u))"

text \<open>Lines 410 to 420: which of the three ways the call takes.\<close>

definition request_mode :: "int option \<Rightarrow> rat \<Rightarrow> rat \<Rightarrow> nat option \<Rightarrow> mode" where
  "request_mode retries backoff jitter session =
     (case session of
        Some s \<Rightarrow> ViaSession s
      | None \<Rightarrow>
          (case retries of
             None \<Rightarrow> Plain
           | Some n \<Rightarrow> if n \<noteq> 0 then ViaRetryAdapter n backoff jitter else Plain))"

text \<open>Lines 409 to 458 of \<open>http_request\<close>: everything after the cache check.\<close>

definition request_uncached ::
  "env \<Rightarrow> string \<Rightarrow> url_arg \<Rightarrow> string \<Rightarrow> int option \<Rightarrow> rat \<Rightarrow> rat \<Rightarrow> nat option \<Rightarrow> world
     \<Rightarrow> (error + web_response) \<times> url_arg \<times> world" where
  "request_uncached E verb u url_str retries backoff jitter session w =
     (let (out, w1) = perform E verb url_str (request_mode retries backoff jitter session) w
      in case out of
           RaisedConnectionError \<Rightarrow> (Inl (ConnectionError (''Failed to connect to '' @ url_str)), u, w1)
         | RaisedTimeout \<Rightarrow> (Inl (TimeoutError (''Request to '' @ url_str @ '' timed out'')), u, w1)
         | Raised e \<Rightarrow> (Inl e, u, w1)
         | Responded r \<Rightarrow>
             if 400 \<le> status_code r \<and> status_code r < 600
             then (case get_helpful_error_message E r url_str of
                     Inl e \<Rightarrow> (Inl e, u, w1)
                   | Inr msg \<Rightarrow> (Inl (HTTPError msg), u, w1))
             else (let u1 = cache_write u (clock w1) verb url_str r;
                       (u2, w2) = rate_limit_wait u1 w1;
                       w3 = log_request verb url_str u2 r w2
                   in (Inr \<lparr>wr_response = r, wr_parent = u2\<rparr>, u2, w3)))"

text \<open>
  \<open>http_request(verb, url, retries=, backoff=, jitter=, session=)\<close>. The result comes
  with the URL object as the call leaves it (its cache store and \<open>_last_request_time\<close>
  are updated in place) and the world after the call. The other arguments (headers,
  timeout, body) go to the transport unread and are left out.
\<close>

definition http_request ::
  "env \<Rightarrow> string \<Rightarrow> url_arg \<Rightarrow> int option \<Rightarrow> rat \<Rightarrow> rat \<Rightarrow> nat option \<Rightarrow> world
     \<Rightarrow> (error + web_response) \<times> url_arg \<times> world" where
  "http_request E verb u retries backoff jitter session w =
     (let url_str = (case u of UPath p \<Rightarrow> wp_url p | UStr s \<Rightarrow> s);
          sch = (case u of
                   UPath p \<Rightarrow> Inr (scheme (wp_parts p))
                 | UStr s \<Rightarrow> map_sum id scheme (urlsplit (checks E) s))
      in case sch of
           Inl e \<Rightarrow> (Inl e, u, w)
         | Inr sc \<Rightarrow>
             if sc \<notin> set http_schemes
             then (Inl (ValueError (upper verb @ '' only valid for http/https URLs'')), u, w)
             else (case u of
                     UStr s \<Rightarrow> request_uncached E verb u url_str retries backoff jitter session w
                   | UPath p \<Rightarrow>
                       (case wp_cache_config p of
                          None \<Rightarrow> request_uncached E verb u url_str retries backoff jitter session w
                        | Some c \<Rightarrow>
                            (case cache_get c (clock w) verb url_str of
                               (Some e, c') \<Rightarrow>
                                 (Inr \<lparr>wr_response = cached_response E e,
                                       wr_parent = UPath (p\<lparr>wp_cache_config := Some c'\<rparr>)\<rparr>,
                                  UPath (p\<lparr>wp_cache_config := Some c'\<rparr>), w)
                             | (None, c') \<Rightarrow>
                                 request_uncached E verb (UPath (p\<lparr>wp_cache_config := Some c'\<rparr>))
                                   url_str retries backoff jitter session w))))"

text \<open>
  The request of path \<open>p\<close> gets as far as the transport: the scheme test passes and no
  cache entry serves it.
\<close>

definition reaches_transport :: "webpath \<Rightarrow> string \<Rightarrow> world \<Rightarrow> bool" where
  "reaches_transport p verb w =
     (scheme (wp_parts p) \<in> set http_schemes
      \<and> (case wp_cache_config p of
            None \<Rightarrow> True
          | Some c \<Rightarrow> fst (cache_get c (clock w) verb (wp_url p)) = None))"

text \<open>
  \<open>WebPath.__getattr__\<close> for a verb: the request method fills in the path's own retry
  settings and session and calls \<open>http_request\<close>.
\<close>

definition request_method :: "env \<Rightarrow> string \<Rightarrow> webpath \<Rightarrow> world \<Rightarrow> (error + web_response) \<times> url_arg \<times> world" where
  "request_method E verb p w =
     http_request E verb (UPath p) (wp_retries p) (wp_backoff p) (wp_jitter p) (wp_session p) w"

text \<open>\<open>WebPath(value).get()\<close>, as the navigator and the pagination walker call it.\<close>

definition fetch :: "env \<Rightarrow> string \<Rightarrow> world \<Rightarrow> (error + web_response) \<times> world" where
  "fetch E value w =
     (case webpath_init (checks E) value of
        Inl e \<Rightarrow> (Inl e, w)
      | Inr p \<Rightarrow> (case request_method E ''get'' p w of (res, u, w') \<Rightarrow> (res, w')))"


section \<open>The response navigator (\<open>WebResponse\<close>)\<close>

text \<open>
  The property \<open>json_data\<close>: the parsed body, the empty object when parsing raises. (The
  attribute \<open>_json_data\<close> only keeps the value for the next read.)
\<close>

definition json_data :: "web_response \<Rightarrow> json" where
  "json_data r = (case json_body (wr_response r) of None \<Rightarrow> JDict [] | Some j \<Rightarrow> j)"

text \<open>\<open>WebResponse.find\<close>\<close>

definition find_expr :: "env \<Rightarrow> web_response \<Rightarrow> string \<Rightarrow> pyval \<Rightarrow> pyval" where
  "find_expr E r expression dflt =
     (if expression = [] then dflt
      else (let data = json_data r
            in if \<not> truthy data then dflt
               else (case jmespath_search E expression data of
                       None \<Rightarrow> dflt
                     | Some result \<Rightarrow> if result \<noteq> JNull then PJson result else dflt)))"

text \<open>\<open>WebResponse.find_all\<close>\<close>

definition find_all :: "env \<Rightarrow> web_response \<Rightarrow> string \<Rightarrow> pyval list" where
  "find_all E r expression =
     (let result = find_expr E r expression (PJson (JList []))
      in case result of
           PJson (JList xs) \<Rightarrow> map PJson xs
         | _ \<Rightarrow> if truthy_py result then [result] else [])"

text \<open>
  \<open>WebResponse.has_path\<close>. Each \<open>object()\<close> allocates: \<open>next_id\<close> numbers the default handed
  to \<open>find\<close>, and the second \<open>object()\<close>, evaluated while the result of \<open>find\<close> is still
  held, gets the number after it. The numbers used come back with the answer.
\<close>

definition has_path :: "env \<Rightarrow> web_response \<Rightarrow> string \<Rightarrow> nat \<Rightarrow> bool \<times> nat" where
  "has_path E r expression next_id =
     (let found = find_expr E r expression (PObj next_id);
          other = Suc next_id
      in (\<not> is_object found other, Suc other))"

text \<open>
  The key of the navigation operator: a string or an integer.
\<close>

datatype key = KStr string | KInt int

definition is_http_url :: "json \<Rightarrow> bool" where
  "is_http_url v = (case v of JStr s \<Rightarrow> startswith s ''http://'' \<or> startswith s ''https://'' | _ \<Rightarrow> False)"

text \<open>\<open>data[idx]\<close> on a list: a negative index counts from the end, \<open>None\<close> is \<open>IndexError\<close>.\<close>

definition list_index :: "'a list \<Rightarrow> int \<Rightarrow> 'a option" where
  "list_index xs i =
     (if 0 \<le> i \<and> i < int (length xs) then Some (xs ! nat i)
      else if i < 0 \<and> - int (length xs) \<le> i then Some (xs ! nat (int (length xs) + i))
      else None)"

definition loopback_hosts :: "string list" where
  "loopback_hosts = [''localhost'', ''127.0.0.1'', ''0.0.0.0'', ''::1'']"

text \<open>What the navigation operator returns: the raw value or the navigator of a followed link.\<close>

datatype nav = Raw json | Followed web_response

text \<open>\<open>WebResponse.__truediv__\<close>\<close>

definition truediv :: "env \<Rightarrow> web_response \<Rightarrow> key \<Rightarrow> world \<Rightarrow> (error + nav) \<times> world" where
  "truediv E r k w =
     (let not_found = Inl (KeyError (''Key '' @ [CHR 0x27]
                            @ (case k of KStr s \<Rightarrow> s | KInt i \<Rightarrow> str_int i) @ [CHR 0x27]
                            @ '' not found in response''))
      in case json_data r of
           JDict kvs \<Rightarrow>
             (case (case k of KStr s \<Rightarrow> map_of kvs s | KInt i \<Rightarrow> None) of
                Some v \<Rightarrow>
                  if is_http_url v
                  then (if \<not> (case wr_parent r of UPath p \<Rightarrow> wp_allow_auto_follow p | UStr s \<Rightarrow> False)
                        then (Inr (Raw v), w)
                        else (case v of
                                JStr s \<Rightarrow>
                                  (case urlsplit (checks E) s of
                                     Inl e \<Rightarrow> (Inl e, w)
                                   | Inr parsed \<Rightarrow>
                                       if hostname parsed \<in> Some ` set loopback_hosts
                                       then (Inl (ValueError ''Cannot auto-follow localhost URLs for security''), w)
                                       else (case fetch E s w of
                                               (Inl e, w') \<Rightarrow> (Inl e, w')
                                             | (Inr page, w') \<Rightarrow> (Inr (Followed page), w')))
                              | _ \<Rightarrow> (Inr (Raw v), w)))
                  else (Inr (Raw v), w)
              | None \<Rightarrow> (not_found, w))
         | JList xs \<Rightarrow>
             (case (case k of KStr s \<Rightarrow> py_int E s | KInt i \<Rightarrow> Some i) of
                None \<Rightarrow> (not_found, w)
              | Some idx \<Rightarrow>
                  (case list_index xs idx of
                     None \<Rightarrow> (not_found, w)
                   | Some v \<Rightarrow>
                       if is_http_url v
                       then (case v of
                               JStr s \<Rightarrow>
                                 (case fetch E s w of
                                    (Inl (ValueError m), w') \<Rightarrow> (not_found, w')
                                  | (Inl (IndexError m), w') \<Rightarrow> (not_found, w')
                                  | (Inl e, w') \<Rightarrow> (Inl e, w')
                                  | (Inr page, w') \<Rightarrow> (Inr (Followed page), w'))
                             | _ \<Rightarrow> (Inr (Raw v), w))
                       else (Inr (Raw v), w)))
         | _ \<Rightarrow> (not_found, w))"


section \<open>The pagination walker\<close>

text \<open>
  \<open>_extract_nested_value\<close>: \<open>current[part]\<close> for each part of the dotted path. On an
  object a missing key raises \<open>KeyError\<close>, on every other value a string subscript raises
  \<open>TypeError\<close>; both give \<open>None\<close>.
\<close>

fun extract_parts :: "json \<Rightarrow> string list \<Rightarrow> json option" where
  "extract_parts cur [] = Some cur"
| "extract_parts (JDict kvs) (p # ps) =
     (case map_of kvs p of None \<Rightarrow> None | Some v \<Rightarrow> extract_parts v ps)"
| "extract_parts _ (p # ps) = None"

definition extract_nested_value :: "json \<Rightarrow> string \<Rightarrow> json" where
  "extract_nested_value data p =
     (case extract_parts data (split_on CHR ''.'' p) of None \<Rightarrow> JNull | Some v \<Rightarrow> v)"

definition next_patterns :: "string list" where
  "next_patterns = [''next'', ''next_url'', ''nextUrl'', ''next_page'', ''links.next'',
                    ''pagination.next'', ''_links.next.href'']"

fun first_next_url :: "json \<Rightarrow> string list \<Rightarrow> json" where
  "first_next_url data [] = JNull"
| "first_next_url data (pattern # patterns) =
     (let next_url = extract_nested_value data pattern
      in if truthy next_url \<and> is_http_url next_url then next_url
         else first_next_url data patterns)"

text \<open>\<open>WebResponse._find_next_url\<close>\<close>

definition find_next_url :: "web_response \<Rightarrow> json" where
  "find_next_url page =
     (if \<not> is_dict (json_data page) then JNull else first_next_url (json_data page) next_patterns)"

text \<open>Lines 295 to 298 of \<open>paginate\<close>: the next URL, by the explicit key path or by convention.\<close>

definition next_url_of :: "string option \<Rightarrow> web_response \<Rightarrow> json" where
  "next_url_of next_key current_page =
     (case next_key of
        None \<Rightarrow> find_next_url current_page
      | Some k \<Rightarrow>
          if k \<noteq> [] then extract_nested_value (json_data current_page) k
          else find_next_url current_page)"

text \<open>
  The loop of \<open>WebResponse.paginate\<close>, with the pages the generator yields when it is
  drained. A \<open>WebResponse\<close> defines neither \<open>__bool__\<close> nor \<open>__len__\<close>, so \<open>current_page\<close> is
  always true in the loop test.
\<close>

function paginate_loop ::
  "env \<Rightarrow> int \<Rightarrow> string option \<Rightarrow> web_response \<Rightarrow> nat \<Rightarrow> string list \<Rightarrow> world
     \<Rightarrow> web_response list \<times> world" where
  "paginate_loop E max_pages next_key current_page page_count visited_urls w =
     (if int page_count < max_pages
      then (let current_url = url (wr_response current_page)
            in if current_url \<in> set visited_urls then ([], w)
               else (case next_url_of next_key current_page of
                       JStr s \<Rightarrow>
                         if s = [] then ([current_page], w)
                         else (case fetch E s w of
                                 (Inl e, w') \<Rightarrow> ([current_page], w')
                               | (Inr page, w') \<Rightarrow>
                                   (case paginate_loop E max_pages next_key page (Suc page_count)
                                           (current_url # visited_urls) w' of
                                      (pages, w'') \<Rightarrow> (current_page # pages, w'')))
                     | _ \<Rightarrow> ([current_page], w)))
      else ([], w))"
  by pat_completeness auto
termination
  by (relation "measure (\<lambda>(E, max_pages, next_key, current_page, page_count, visited_urls, w).
                     nat (max_pages - int page_count))") auto

text \<open>\<open>WebResponse.paginate\<close>\<close>

definition paginate :: "env \<Rightarrow> web_response \<Rightarrow> int \<Rightarrow> string option \<Rightarrow> world \<Rightarrow> web_response list \<times> world" where
  "paginate E self max_pages next_key w = paginate_loop E max_pages next_key self 0 [] w"

section \<open>The download manager (\<open>downloads.py\<close>)\<close>

text \<open>\<open>Path(dest).name\<close>: the last component of the path.\<close>

definition path_name :: "string \<Rightarrow> string" where
  "path_name dest = snd (snd (rpartition_at CHR ''/'' (rstrip ''/'' dest)))"

text \<open>\<open>r.headers.get("content-length", 0)\<close> and \<open>int\<close> of it.\<close>

definition content_length :: "env \<Rightarrow> response \<Rightarrow> error + int" where
  "content_length E r =
     (case (if cached r then map_of (headers r) ''content-length''
            else map_of (map (\<lambda>(k, v). (lower k, v)) (headers r)) ''content-length'') of
        None \<Rightarrow> Inr 0
      | Some v \<Rightarrow>
          (case py_int E v of
             None \<Rightarrow> Inl (ValueError (''invalid literal for int() with base 10: '' @ v))
           | Some n \<Rightarrow> Inr n))"

text \<open>
  The \<open>try\<close> block of \<open>download_file\<close> (lines 23 to 42): the request, the status check, the
  content length, the hasher, then the destination opened for writing (created or
  truncated) and every non-empty block written to it. It gives the digest of what was
  written when a hasher was made. The progress bar only displays and is left out.
\<close>

definition download_try ::
  "env \<Rightarrow> url_arg \<Rightarrow> string \<Rightarrow> nat \<Rightarrow> int option \<Rightarrow> rat \<Rightarrow> string option \<Rightarrow> string \<Rightarrow> world
     \<Rightarrow> (error + string option) \<times> url_arg \<times> world" where
  "download_try E u dest chunk retries backoff checksum algorithm w =
     (case http_request E ''get'' u retries backoff 0 None w of
        (Inl e, u', w1) \<Rightarrow> (Inl e, u', w1)
      | (Inr r, u', w1) \<Rightarrow>
          (let resp = wr_response r
           in if 400 \<le> status_code resp \<and> status_code resp < 600
              then (Inl (HTTPError (str_int (status_code resp) @ '' Client Error'')), u', w1)
              else (case content_length E resp of
                      Inl e \<Rightarrow> (Inl e, u', w1)
                    | Inr total_bytes \<Rightarrow>
                        (case (if checksum \<noteq> None \<and> checksum \<noteq> Some []
                               then (case hash_new E algorithm of
                                       None \<Rightarrow> Inl (ValueError (''unsupported hash type '' @ algorithm))
                                     | Some h \<Rightarrow> Inr (Some h))
                               else Inr None) of
                           Inl e \<Rightarrow> (Inl e, u', w1)
                         | Inr hasher \<Rightarrow>
                             if \<not> can_open E dest
                             then (Inl (OSError (''cannot open '' @ dest)), u', w1)
                             else if cached resp
                             then (Inl (AttributeError ''iter_content''), u',
                                   w1\<lparr>files := (files w1)(dest \<mapsto> [])\<rparr>)
                             else (case iter_content E resp chunk of
                                     (blocks, failure) \<Rightarrow>
                                       (let w2 = w1\<lparr>files := (files w1)(dest \<mapsto> concat blocks)\<rparr>
                                        in case failure of
                                             Some e \<Rightarrow> (Inl e, u', w2)
                                           | None \<Rightarrow>
                                               (Inr (map_option (\<lambda>h. h (concat blocks)) hasher),
                                                u', w2)))))))"

text \<open>
  \<open>download_file\<close>: the \<open>try\<close> block, the handler of lines 44 to 47 and the checksum test
  of lines 52 to 57. It returns the destination.
\<close>

definition download_file ::
  "env \<Rightarrow> url_arg \<Rightarrow> string \<Rightarrow> nat \<Rightarrow> int option \<Rightarrow> rat \<Rightarrow> string option \<Rightarrow> string \<Rightarrow> world
     \<Rightarrow> (error + string) \<times> url_arg \<times> world" where
  "download_file E u dest chunk retries backoff checksum algorithm w =
     (case download_try E u dest chunk retries backoff checksum algorithm w of
        (Inl e, u', w') \<Rightarrow>
          (Inl e, u', if files w' dest \<noteq> None then w'\<lparr>files := (files w')(dest := None)\<rparr> else w')
      | (Inr digest, u', w') \<Rightarrow>
          (case (checksum, digest) of
             (Some c, Some d) \<Rightarrow>
               if c \<noteq> [] \<and> d \<noteq> lower c
               then (Inl (ValueError (''Checksum mismatch for '' @ path_name dest @ '': expected ''
                                       @ c @ '', got '' @ d)),
                     u', w'\<lparr>files := (files w')(dest := None)\<rparr>)
               else (Inr dest, u', w')
           | _ \<Rightarrow> (Inr dest, u', w')))"


section \<open>Sequences of joins\<close>

text \<open>
  A sequence of joins, \<open>base / s1 / ... / sn\<close>: \<open>__truediv__\<close> applied from left to right, each to
  the result of the one before; an exception raised by one of them ends the chain.
\<close>

fun joins :: "netloc_checks \<Rightarrow> webpath \<Rightarrow> string list \<Rightarrow> error + webpath" where
  "joins N u [] = Inr u"
| "joins N u (seg # segs) =
     (case webpath_truediv N u seg of Inl e \<Rightarrow> Inl e | Inr u' \<Rightarrow> joins N u' segs)"

text \<open>
  The path that the specification expects after one join, the \<^emph>\<open>slash-normalized concatenation\<close>
  of the previous path and the percent-encoded segment: the previous path without its trailing
  slashes, one \<open>/\<close>, and the segment without its leading slashes, percent-encoded.
\<close>

definition normalized_join :: "string \<Rightarrow> string \<Rightarrow> string" where
  "normalized_join pa seg = rstrip ''/'' pa @ ''/'' @ quote (lstrip ''/'' seg)"

text \<open>The characters of a percent-encoded segment: the ones \<open>quote\<close> keeps, and those of an escape \<open>%XX\<close>.\<close>

definition quoted_char :: "char \<Rightarrow> bool" where
  "quoted_char c = (quote_safe c \<or> c \<in> set ''%0123456789ABCDEF'')"

text \<open>No tab, carriage return or line feed: the bytes \<open>urlsplit\<close> removes from its input.\<close>

definition safe_string :: "string \<Rightarrow> bool" where
  "safe_string s = list_all (\<lambda>c. \<not> unsafe_url_byte c) s"

text \<open>What \<open>urlunsplit\<close> writes after the path: \<open>?query\<close> and \<open>#fragment\<close>, each only when non-empty.\<close>

definition url_tail :: "string \<Rightarrow> string \<Rightarrow> string" where
  "url_tail q f = (if q \<noteq> [] then ''?'' @ q else []) @ (if f \<noteq> [] then ''#'' @ f else [])"

text \<open>
  The components that \<open>urlsplit\<close> yields for an http(s) URL with a host: joining them with
  \<open>urlunsplit\<close> and splitting the result again gives the same components.
\<close>

definition parts_ok :: "netloc_checks \<Rightarrow> split_result \<Rightarrow> bool" where
  "parts_ok N p =
     (scheme p \<in> set http_schemes
      \<and> netloc p \<noteq> []
      \<and> list_all (\<lambda>c. c \<notin> set ''/?#'') (netloc p)
      \<and> netloc_error N (netloc p) = None
      \<and> (path p = [] \<or> take 1 (path p) = ''/'')
      \<and> list_all (\<lambda>c. c \<notin> set ''?#'') (path p)
      \<and> list_all (\<lambda>c. c \<noteq> CHR ''#'') (query p)
      \<and> safe_string (netloc p @ path p @ query p @ fragment p))"

text \<open>
  The state of a \<open>WebPath\<close> that the constructor builds and \<open>_replace\<close> keeps: components as
  above, a \<open>_url\<close> the constructor accepts, and a \<open>_trailing_slash\<close> flag (of the object, and of
  the object \<open>_clone\<close> rebuilds from \<open>_url\<close>) that is set only when the URL ends in a query or a
  fragment.
\<close>

definition wellformed :: "netloc_checks \<Rightarrow> webpath \<Rightarrow> bool" where
  "wellformed N u =
     (parts_ok N (wp_parts u)
      \<and> (wp_trailing_slash u \<longrightarrow> query (wp_parts u) \<noteq> [] \<or> fragment (wp_parts u) \<noteq> [])
      \<and> (case webpath_init N (wp_url u) of
            Inl e \<Rightarrow> False
          | Inr x \<Rightarrow> wp_trailing_slash x \<longrightarrow> query (wp_parts u) \<noteq> [] \<or> fragment (wp_parts u) \<noteq> []))"


section \<open>Concrete inputs\<close>

text \<open>
  The path-query evaluator on a bare identifier: the member of that name of an object,
  null on any other value and when the object has no such member.
\<close>

definition jmespath_identifier :: "string \<Rightarrow> json \<Rightarrow> json option" where
  "jmespath_identifier name data =
     Some (case data of
             JDict kvs \<Rightarrow> (case map_of kvs name of Some v \<Rightarrow> v | None \<Rightarrow> JNull)
           | _ \<Rightarrow> JNull)"

text \<open>An environment to run the code in: every host passes the library's checks.\<close>

definition example_checks :: netloc_checks where
  "example_checks = \<lparr>check_bracketed_host = (\<lambda>h. True), checknetloc = (\<lambda>n. True)\<rparr>"

text \<open>A transport with no network: every call raises a connection error at once.\<close>

definition silent_transport :: "call list \<Rightarrow> call \<Rightarrow> transport_outcome \<times> rat" where
  "silent_transport history c = (RaisedConnectionError, 0)"

definition example_env :: env where
  "example_env =
     \<lparr>checks = example_checks, transport = silent_transport, json_loads = (\<lambda>s. None),
      jmespath_search = jmespath_identifier, py_repr = (\<lambda>v. ''?''), py_int = (\<lambda>s. None),
      hash_new = (\<lambda>a. None), iter_content = (\<lambda>r n. ([], None)), can_open = (\<lambda>p. True)\<rparr>"

text \<open>A 200 response with the given URL and parsed body.\<close>

definition json_page :: "string \<Rightarrow> json \<Rightarrow> web_response" where
  "json_page u j =
     \<lparr>wr_response = \<lparr>status_code = 200, headers = [], content = [], url = u, json_body = Some j,
                      elapsed_ms = 0, cached = False\<rparr>,
      wr_parent = UStr u\<rparr>"


text \<open>The path \<open>WebPath("https://api.example.com/items")\<close>, with no configuration.\<close>

definition example_path :: webpath where
  "example_path =
     \<lparr>wp_url = ''https://api.example.com/items'',
      wp_parts = \<lparr>scheme = ''https'', netloc = ''api.example.com'', path = ''/items'',
                  query = [], fragment = []\<rparr>,
      wp_trailing_slash = False, wp_cache_config = None, wp_allow_auto_follow = False,
      wp_enable_logging = False, wp_rate_limit = None, wp_last_request_time = 0,
      wp_default_headers = [], wp_retries = None, wp_backoff = 3 / 10, wp_jitter = 0,
      wp_timeout = None, wp_session = None\<rparr>"

text \<open>A transport that answers every call with 200 and the body \<open>{}\<close>.\<close>

definition empty_page :: "call \<Rightarrow> response" where
  "empty_page c = \<lparr>status_code = 200, headers = [], content = ''{}'', url = c_url c,
                   json_body = Some (JDict []), elapsed_ms = 0, cached = False\<rparr>"

definition open_transport :: "call list \<Rightarrow> call \<Rightarrow> transport_outcome \<times> rat" where
  "open_transport history c = (Responded (empty_page c), 0)"

text \<open>The world at time 0: no call made, nothing on disk.\<close>

definition start_world :: world where
  "start_world = \<lparr>clock = 0, calls = [], slept = [], console = [], files = (\<lambda>p. None)\<rparr>"

text \<open>A 200 response that came from the given path, with the given parsed body.\<close>

definition page_from :: "webpath \<Rightarrow> json \<Rightarrow> web_response" where
  "page_from p j =
     \<lparr>wr_response = \<lparr>status_code = 200, headers = [], content = [], url = wp_url p,
                      json_body = Some j, elapsed_ms = 0, cached = False\<rparr>,
      wr_parent = UPath p\<rparr>"

text \<open>
  A server that answers every call with a page whose \<open>next\<close> link is always the same
  URL, and a first page that links to it.
\<close>

definition same_next_page :: "call \<Rightarrow> response" where
  "same_next_page c =
     \<lparr>status_code = 200, headers = [], content = [], url = c_url c,
      json_body = Some (JDict [(''next'', JStr ''https://api.example.com/items?page=2'')]),
      elapsed_ms = 0, cached = False\<rparr>"

definition same_next_transport :: "call list \<Rightarrow> call \<Rightarrow> transport_outcome \<times> rat" where
  "same_next_transport history c = (Responded (same_next_page c), 0)"

definition first_page :: web_response where
  "first_page = page_from example_path (JDict [(''next'', JStr ''https://api.example.com/items?page=2'')])"




definition world_with_file :: world where
  "world_with_file = start_world\<lparr>files := [''out.bin'' \<mapsto> ''old data'']\<rparr>"





text \<open>
  An error response with the given status and parsed body, and a server that answers
  404 with the body \<open>{"message": "no such item"}\<close>.
\<close>

definition error_page :: "int \<Rightarrow> json option \<Rightarrow> response" where
  "error_page status body =
     \<lparr>status_code = status, headers = [], content = [], url = ''https://api.example.com/items'',
      json_body = body, elapsed_ms = 0, cached = False\<rparr>"

definition not_found_transport :: "call list \<Rightarrow> call \<Rightarrow> transport_outcome \<times> rat" where
  "not_found_transport history c =
     (Responded (error_page 404 (Some (JDict [(''message'', JStr ''no such item'')]))), 0)"

text \<open>
  A server behind a redirect: the response to the \<open>n\<close>-th call reports a URL of its own
  (\<open>?r=\<close> followed by \<open>n\<close> ones), and its \<open>next\<close> link is always the first page's URL. The
  first page links to itself.
\<close>

definition redirected_page :: "nat \<Rightarrow> response" where
  "redirected_page n =
     \<lparr>status_code = 200, headers = [], content = [],
      url = ''https://api.example.com/items?r='' @ replicate n CHR ''1'',
      json_body = Some (JDict [(''next'', JStr ''https://api.example.com/items'')]),
      elapsed_ms = 0, cached = False\<rparr>"

definition redirecting_transport :: "call list \<Rightarrow> call \<Rightarrow> transport_outcome \<times> rat" where
  "redirecting_transport history c = (Responded (redirected_page (length history)), 0)"

definition self_linked_page :: web_response where
  "self_linked_page = page_from example_path (JDict [(''next'', JStr ''https://api.example.com/items'')])"

text \<open>The definitions to unfold when the code is run on a concrete input.\<close>

lemmas url_eval =
  webpath_init_def strip_def lstrip_def rstrip_def whitespace_def urlsplit_def netloc_error_def
  split_scheme_def splitnetloc_def partition_at_def rpartition_at_def c0_control_or_space_def
  unsafe_url_byte_def Let_def is_upper_def is_lower_def is_digit_def scheme_char_def lower_def
  lower_char_def upper_letters_def lower_letters_def startswith_def endswith_def isascii_def
  hostname_def

lemmas request_eval =
  fetch_def request_method_def http_request_def request_uncached_def request_mode_def perform_def
  cache_write_def rate_limit_wait_def log_request_def http_schemes_def

lemmas example_eval =
  example_env_def example_checks_def example_path_def page_from_def json_page_def
  start_world_def open_transport_def empty_page_def silent_transport_def

lemmas join_eval = webpath_truediv_def replace_def clone_def urlunsplit_def quote_def quote_char_def
  quote_safe_def hex_digit_def

section \<open>The navigator's queries\<close>

lemma has_path_always: "fst (has_path E r expression n)"
  by (cases "find_expr E r expression (PObj n)") (simp_all add: has_path_def Let_def find_expr_def split: if_splits option.splits)


text \<open>
  Claim C7: \<open>has_path\<close> is true exactly when the path resolves to a non-null value, and
  false when the path is empty, absent or null. The code compares the result of \<open>find\<close>
  with a second, fresh \<open>object()\<close>, which nothing is identical to: on the body
  \<open>{"a": 1}\<close> it answers true for the empty path and for the absent path \<open>b\<close>.
\<close>

theorem has_path_true_on_empty_and_missing:
  "fst (has_path example_env (json_page ''https://api.example.com/u'' (JDict [(''a'', JInt 1)])) '''' 0)
   \<and> fst (has_path example_env (json_page ''https://api.example.com/u'' (JDict [(''a'', JInt 1)])) ''b'' 0)"
  by (simp add: has_path_def find_expr_def json_data_def json_page_def example_env_def jmespath_identifier_def)


text \<open>
  Claim C8, as stated: a path that produces a scalar gives a one-element sequence
  holding it. On the body \<open>{"count": 0}\<close> the path \<open>count\<close> produces the scalar 0
  (\<open>find\<close> returns it), and \<open>find_all\<close> returns the empty sequence.
\<close>

theorem find_all_falsy_scalar_counterexample:
  "find_expr example_env (json_page ''https://api.example.com/u'' (JDict [(''count'', JInt 0)])) ''count'' (PJson JNull) = PJson (JInt 0)
   \<and> find_all example_env (json_page ''https://api.example.com/u'' (JDict [(''count'', JInt 0)])) ''count'' = []"
  by (simp add: find_all_def find_expr_def json_data_def json_page_def example_env_def jmespath_identifier_def)


text \<open>
  Claim C8, amended: \<open>find_all\<close> always returns a sequence. It is empty when the path is
  empty, the body is falsy, evaluation fails or the result is null; it is the result
  itself when that is a sequence; and for any other result it is the one-element
  sequence holding it when the result is truthy, and empty when it is falsy (0, false,
  the empty string, the empty object).
\<close>

theorem find_all_amended:
  "(expression = [] \<or> \<not> truthy (json_data r)
      \<or> jmespath_search E expression (json_data r) = None
      \<or> jmespath_search E expression (json_data r) = Some JNull
    \<longrightarrow> find_all E r expression = [])
   \<and> (expression \<noteq> [] \<and> truthy (json_data r)
        \<and> jmespath_search E expression (json_data r) = Some (JList xs)
      \<longrightarrow> find_all E r expression = map PJson xs)
   \<and> (expression \<noteq> [] \<and> truthy (json_data r)
        \<and> jmespath_search E expression (json_data r) = Some v \<and> \<not> is_list v
      \<longrightarrow> find_all E r expression = (if truthy v then [PJson v] else []))"
proof (intro conjI impI)
  assume "expression = [] \<or> \<not> truthy (json_data r)
      \<or> jmespath_search E expression (json_data r) = None
      \<or> jmespath_search E expression (json_data r) = Some JNull"
  then show "find_all E r expression = []"
    by (auto simp: find_all_def find_expr_def Let_def)
next
  assume "expression \<noteq> [] \<and> truthy (json_data r)
        \<and> jmespath_search E expression (json_data r) = Some (JList xs)"
  then show "find_all E r expression = map PJson xs"
    by (simp add: find_all_def find_expr_def Let_def)
next
  assume "expression \<noteq> [] \<and> truthy (json_data r)
        \<and> jmespath_search E expression (json_data r) = Some v \<and> \<not> is_list v"
  then show "find_all E r expression = (if truthy v then [PJson v] else [])"
    by (cases v) (simp_all add: find_all_def find_expr_def Let_def)
qed


theorem find_all_amended_witness:
  "find_all example_env (json_page ''https://api.example.com/u'' (JDict [(''a'', JInt 1)])) ''b'' = []
   \<and> find_all example_env (json_page ''https://api.example.com/u'' (JDict [(''items'', JList [JInt 1, JInt 2])])) ''items''
       = [PJson (JInt 1), PJson (JInt 2)]
   \<and> find_all example_env (json_page ''https://api.example.com/u'' (JDict [(''name'', JStr ''x'')])) ''name''
       = [PJson (JStr ''x'')]
   \<and> find_all example_env (json_page ''https://api.example.com/u'' (JDict [(''count'', JInt 0)])) ''count'' = []"
proof -
  have a: "jmespath_search example_env ''b'' (json_data (json_page ''https://api.example.com/u'' (JDict [(''a'', JInt 1)]))) = Some JNull"
    by (simp add: example_env_def jmespath_identifier_def json_data_def json_page_def)
  have b: "''items'' \<noteq> [] \<and> truthy (json_data (json_page ''https://api.example.com/u'' (JDict [(''items'', JList [JInt 1, JInt 2])])))
     \<and> jmespath_search example_env ''items'' (json_data (json_page ''https://api.example.com/u'' (JDict [(''items'', JList [JInt 1, JInt 2])])))
         = Some (JList [JInt 1, JInt 2])"
    by (simp add: example_env_def jmespath_identifier_def json_data_def json_page_def)
  have c: "''name'' \<noteq> [] \<and> truthy (json_data (json_page ''https://api.example.com/u'' (JDict [(''name'', JStr ''x'')])))
     \<and> jmespath_search example_env ''name'' (json_data (json_page ''https://api.example.com/u'' (JDict [(''name'', JStr ''x'')])))
         = Some (JStr ''x'') \<and> \<not> is_list (JStr ''x'')"
    by (simp add: example_env_def jmespath_identifier_def json_data_def json_page_def)
  have d: "''count'' \<noteq> [] \<and> truthy (json_data (json_page ''https://api.example.com/u'' (JDict [(''count'', JInt 0)])))
     \<and> jmespath_search example_env ''count'' (json_data (json_page ''https://api.example.com/u'' (JDict [(''count'', JInt 0)])))
         = Some (JInt 0) \<and> \<not> is_list (JInt 0)"
    by (simp add: example_env_def jmespath_identifier_def json_data_def json_page_def)
  from a b c d show ?thesis
    using find_all_amended [of "''b''" "json_page ''https://api.example.com/u'' (JDict [(''a'', JInt 1)])" example_env]
          find_all_amended [of "''items''" "json_page ''https://api.example.com/u'' (JDict [(''items'', JList [JInt 1, JInt 2])])" example_env "[JInt 1, JInt 2]"]
          find_all_amended [of "''name''" "json_page ''https://api.example.com/u'' (JDict [(''name'', JStr ''x'')])" example_env _ "JStr ''x''"]
          find_all_amended [of "''count''" "json_page ''https://api.example.com/u'' (JDict [(''count'', JInt 0)])" example_env _ "JInt 0"]
    by simp
qed



section \<open>The navigation operator\<close>

text \<open>
  The object branch returns the raw value when auto-follow is off, and rejects a link
  to a loopback host when it is on.
\<close>

lemma truediv_dict_not_followed:
  "json_data r = JDict kvs \<Longrightarrow> map_of kvs k = Some v \<Longrightarrow>
   \<not> (case wr_parent r of UPath p \<Rightarrow> wp_allow_auto_follow p | UStr s \<Rightarrow> False) \<Longrightarrow>
     truediv E r (KStr k) w = (Inr (Raw v), w)"
  by (simp add: truediv_def)

lemma truediv_dict_loopback_rejected:
  "json_data r = JDict kvs \<Longrightarrow> map_of kvs k = Some (JStr s) \<Longrightarrow> is_http_url (JStr s) \<Longrightarrow>
   wr_parent r = UPath p \<Longrightarrow> wp_allow_auto_follow p \<Longrightarrow>
   urlsplit (checks E) s = Inr parsed \<Longrightarrow> hostname parsed = Some h \<Longrightarrow> h \<in> set loopback_hosts \<Longrightarrow>
     truediv E r (KStr k) w = (Inl (ValueError ''Cannot auto-follow localhost URLs for security''), w)"
  by (simp add: truediv_def)

lemma truediv_list_follows:
  "json_data r = JList xs \<Longrightarrow> list_index xs i = Some (JStr s) \<Longrightarrow> is_http_url (JStr s) \<Longrightarrow>
     snd (truediv E r (KInt i) w) = snd (fetch E s w)"
  by (simp add: truediv_def Let_def split: prod.splits sum.splits error.splits)


text \<open>
  Claim C1: for object keys and list indices alike, a link is followed only when
  auto-follow is enabled, and a link to a loopback host is rejected instead of
  fetched. The list branch has neither test: with auto-follow off, index 0 of the body
  \<open>["http://localhost/admin"]\<close> issues a GET to that URL and returns its navigator.
\<close>

theorem truediv_list_index_follows_loopback:
  "\<not> wp_allow_auto_follow example_path
   \<and> map c_url (calls (snd (truediv (example_env\<lparr>transport := open_transport\<rparr>)
          (page_from example_path (JList [JStr ''http://localhost/admin''])) (KInt 0) start_world)))
       = [''http://localhost/admin'']
   \<and> (case fst (truediv (example_env\<lparr>transport := open_transport\<rparr>)
          (page_from example_path (JList [JStr ''http://localhost/admin''])) (KInt 0) start_world) of
         Inr (Followed page) \<Rightarrow> url (wr_response page) = ''http://localhost/admin''
       | _ \<Rightarrow> False)"
  by (simp add: truediv_def json_data_def is_http_url_def list_index_def url_eval request_eval example_eval)



section \<open>Transport calls of one request\<close>

lemma rate_limit_wait_calls: "rate_limit_wait u w = (u', w') \<Longrightarrow> calls w' = calls w"
  by (auto simp: rate_limit_wait_def Let_def split: url_arg.splits option.splits if_splits)

lemma log_request_calls: "calls (log_request verb s u r w) = calls w"
  by (simp add: log_request_def Let_def split: url_arg.splits)

lemma perform_calls:
  "perform E verb s m w = (out, w1) \<Longrightarrow>
     calls w1 = calls w @ [\<lparr>c_time = clock w, c_verb = verb, c_url = s, c_mode = m\<rparr>]"
  by (auto simp: perform_def Let_def split: prod.splits)

lemma request_uncached_calls:
  "request_uncached E verb u s retries backoff jitter session w = (res, u', w') \<Longrightarrow>
     calls w' = calls w @ [\<lparr>c_time = clock w, c_verb = verb, c_url = s,
                           c_mode = request_mode retries backoff jitter session\<rparr>]"
  by (auto simp: request_uncached_def Let_def log_request_calls
           split: transport_outcome.splits sum.splits prod.splits if_splits
           dest!: perform_calls rate_limit_wait_calls)

lemma fetch_calls:
  "fetch E s w = (res, w') \<Longrightarrow> length (calls w') \<le> Suc (length (calls w))"
  by (auto simp: fetch_def request_method_def http_request_def webpath_init_def Let_def
           split: sum.splits prod.splits if_splits
           dest!: request_uncached_calls)




section \<open>The pagination walk\<close>

declare paginate_loop.simps [simp del]

text \<open>One turn of the loop, case by case.\<close>

lemma paginate_loop_done:
  "\<not> int n < max_pages \<or> url (wr_response p) \<in> set visited \<Longrightarrow>
     paginate_loop E max_pages next_key p n visited w = ([], w)"
  by (subst paginate_loop.simps) (auto simp: Let_def)

lemma paginate_loop_no_next:
  "int n < max_pages \<Longrightarrow> url (wr_response p) \<notin> set visited \<Longrightarrow>
   (\<forall>s. next_url_of next_key p = JStr s \<longrightarrow> s = []) \<Longrightarrow>
     paginate_loop E max_pages next_key p n visited w = ([p], w)"
  by (subst paginate_loop.simps) (auto simp: Let_def split: json.splits)

lemma paginate_loop_fetch_failed:
  "int n < max_pages \<Longrightarrow> url (wr_response p) \<notin> set visited \<Longrightarrow>
   next_url_of next_key p = JStr s \<Longrightarrow> s \<noteq> [] \<Longrightarrow> fetch E s w = (Inl e, w') \<Longrightarrow>
     paginate_loop E max_pages next_key p n visited w = ([p], w')"
  by (subst paginate_loop.simps) (auto simp: Let_def)

lemma paginate_loop_next:
  "int n < max_pages \<Longrightarrow> url (wr_response p) \<notin> set visited \<Longrightarrow>
   next_url_of next_key p = JStr s \<Longrightarrow> s \<noteq> [] \<Longrightarrow> fetch E s w = (Inr page, w') \<Longrightarrow>
     paginate_loop E max_pages next_key p n visited w =
       (p # fst (paginate_loop E max_pages next_key page (Suc n) (url (wr_response p) # visited) w'),
        snd (paginate_loop E max_pages next_key page (Suc n) (url (wr_response p) # visited) w'))"
  by (subst paginate_loop.simps) (auto simp: Let_def split: prod.splits)

text \<open>Every turn is one of the four.\<close>

lemma paginate_loop_cases:
  obtains
    (stop) "\<not> int n < max_pages \<or> url (wr_response p) \<in> set visited"
  | (no_link) "int n < max_pages" "url (wr_response p) \<notin> set visited"
              "\<forall>s. next_url_of next_key p = JStr s \<longrightarrow> s = []"
  | (fetch_failed) s e w' where "int n < max_pages" "url (wr_response p) \<notin> set visited"
              "next_url_of next_key p = JStr s" "s \<noteq> []" "fetch E s w = (Inl e, w')"
  | (follow) s page w' where "int n < max_pages" "url (wr_response p) \<notin> set visited"
              "next_url_of next_key p = JStr s" "s \<noteq> []" "fetch E s w = (Inr page, w')"
proof -
  show ?thesis
  proof (cases "\<not> int n < max_pages \<or> url (wr_response p) \<in> set visited")
    case True
    then show ?thesis by (rule stop)
  next
    case a: False
    show ?thesis
    proof (cases "\<forall>s. next_url_of next_key p = JStr s \<longrightarrow> s = []")
      case True
      with a show ?thesis by (intro no_link) auto
    next
      case False
      then obtain s where s: "next_url_of next_key p = JStr s" "s \<noteq> []" by auto
      obtain res w' where f: "fetch E s w = (res, w')" by (cases "fetch E s w")
      show ?thesis
      proof (cases res)
        case (Inl e)
        with a s f show ?thesis by (intro fetch_failed[of s e w']) auto
      next
        case (Inr page)
        with a s f show ?thesis by (intro follow[of s page w']) auto
      qed
    qed
  qed
qed

lemma paginate_loop_length:
  "length (fst (paginate_loop E max_pages next_key p n visited w)) \<le> nat (max_pages - int n)"
proof (induction E max_pages next_key p n visited w rule: paginate_loop.induct)
  case (1 E max_pages next_key p n visited w)
  show ?case
  proof (cases rule: paginate_loop_cases[where n=n and max_pages=max_pages and p=p and visited=visited and next_key=next_key and E=E and w=w])
    case stop
    then show ?thesis by (simp add: paginate_loop_done)
  next
    case no_link
    then show ?thesis by (simp add: paginate_loop_no_next)
  next
    case (fetch_failed s e w')
    then show ?thesis by (simp add: paginate_loop_fetch_failed)
  next
    case (follow s page w')
    have "length (fst (paginate_loop E max_pages next_key page (Suc n) (url (wr_response p) # visited) w'))
            \<le> nat (max_pages - int (Suc n))"
      using follow by (intro "1.IH"[of "url (wr_response p)" s "Inr page" w' page]) auto
    with follow show ?thesis by (simp add: paginate_loop_next)
  qed
qed

lemma paginate_loop_distinct:
  "distinct (map (\<lambda>q. url (wr_response q)) (fst (paginate_loop E max_pages next_key p n visited w)))
   \<and> set (map (\<lambda>q. url (wr_response q)) (fst (paginate_loop E max_pages next_key p n visited w)))
       \<inter> set visited = {}"
proof (induction E max_pages next_key p n visited w rule: paginate_loop.induct)
  case (1 E max_pages next_key p n visited w)
  show ?case
  proof (cases rule: paginate_loop_cases[where n=n and max_pages=max_pages and p=p and visited=visited and next_key=next_key and E=E and w=w])
    case stop
    then show ?thesis by (simp add: paginate_loop_done)
  next
    case no_link
    then show ?thesis by (simp add: paginate_loop_no_next)
  next
    case (fetch_failed s e w')
    then show ?thesis by (simp add: paginate_loop_fetch_failed)
  next
    case (follow s page w')
    have "distinct (map (\<lambda>q. url (wr_response q))
             (fst (paginate_loop E max_pages next_key page (Suc n) (url (wr_response p) # visited) w')))
          \<and> set (map (\<lambda>q. url (wr_response q))
             (fst (paginate_loop E max_pages next_key page (Suc n) (url (wr_response p) # visited) w')))
            \<inter> set (url (wr_response p) # visited) = {}"
      using follow by (intro "1.IH"[of "url (wr_response p)" s "Inr page" w' page]) auto
    with follow show ?thesis by (auto simp: paginate_loop_next)
  qed
qed

lemma paginate_loop_calls:
  "length (calls (snd (paginate_loop E max_pages next_key p n visited w)))
     \<le> length (calls w) + nat (max_pages - int n)"
proof (induction E max_pages next_key p n visited w rule: paginate_loop.induct)
  case (1 E max_pages next_key p n visited w)
  show ?case
  proof (cases rule: paginate_loop_cases[where n=n and max_pages=max_pages and p=p and visited=visited and next_key=next_key and E=E and w=w])
    case stop
    then show ?thesis by (simp add: paginate_loop_done)
  next
    case no_link
    then show ?thesis by (simp add: paginate_loop_no_next)
  next
    case (fetch_failed s e w')
    then show ?thesis using fetch_calls[of E s w "Inl e" w'] by (simp add: paginate_loop_fetch_failed)
  next
    case (follow s page w')
    have "length (calls (snd (paginate_loop E max_pages next_key page (Suc n) (url (wr_response p) # visited) w')))
            \<le> length (calls w') + nat (max_pages - int (Suc n))"
      using follow by (intro "1.IH"[of "url (wr_response p)" s "Inr page" w' page]) auto
    with follow show ?thesis using fetch_calls[of E s w "Inr page" w'] by (simp add: paginate_loop_next)
  qed
qed


text \<open>
  Claim C6, as stated: the walk stops when the next URL was already visited. The
  visited set holds the URLs the responses report, and the test reads the URL of the
  page just fetched, not the link that was followed. Behind the redirecting server
  every page's \<open>next\<close> link is the first page's URL, which is visited from the first
  turn on; with \<open>max_pages = 3\<close> the walk still follows it and yields three pages.
\<close>

lemma self_linked_next:
  "next_url_of None self_linked_page = JStr ''https://api.example.com/items''
   \<and> url (wr_response self_linked_page) = ''https://api.example.com/items''"
  by (simp add: next_url_of_def find_next_url_def self_linked_page_def page_from_def json_data_def
        next_patterns_def extract_nested_value_def is_http_url_def startswith_def example_path_def)

lemma redirected_next:
  "next_url_of None \<lparr>wr_response = redirected_page n, wr_parent = u\<rparr>
     = JStr ''https://api.example.com/items''"
  by (simp add: next_url_of_def find_next_url_def redirected_page_def json_data_def
        next_patterns_def extract_nested_value_def is_http_url_def startswith_def)

lemma redirected_fetch:
  "\<exists>p w'. fetch (example_env\<lparr>transport := redirecting_transport\<rparr>) ''https://api.example.com/items'' w
             = (Inr p, w')
     \<and> url (wr_response p) = ''https://api.example.com/items?r='' @ replicate (length (calls w)) CHR ''1''
     \<and> next_url_of None p = JStr ''https://api.example.com/items''
     \<and> length (calls w') = Suc (length (calls w))"
  by (simp add: url_eval request_eval example_eval redirecting_transport_def redirected_next)
     (simp add: redirected_page_def)

theorem paginate_revisits_next_url_counterexample:
  "next_url_of None self_linked_page = JStr (url (wr_response self_linked_page))
   \<and> map (\<lambda>q. url (wr_response q))
        (fst (paginate (example_env\<lparr>transport := redirecting_transport\<rparr>) self_linked_page 3 None
               start_world))
       = [''https://api.example.com/items'', ''https://api.example.com/items?r='',
          ''https://api.example.com/items?r=1'']
   \<and> map (\<lambda>q. next_url_of None q)
        (fst (paginate (example_env\<lparr>transport := redirecting_transport\<rparr>) self_linked_page 3 None
               start_world))
       = [JStr ''https://api.example.com/items'', JStr ''https://api.example.com/items'',
          JStr ''https://api.example.com/items'']"
proof -
  let ?E = "example_env\<lparr>transport := redirecting_transport\<rparr>"
  let ?a = "''https://api.example.com/items''"
  obtain p1 w1 where f1: "fetch ?E ?a start_world = (Inr p1, w1)"
    and p1: "url (wr_response p1) = ?a @ ''?r='' @ replicate (length (calls start_world)) CHR ''1''"
      "next_url_of None p1 = JStr ?a"
    and w1: "length (calls w1) = Suc (length (calls start_world))"
    using redirected_fetch [of start_world] by auto
  obtain p2 w2 where f2: "fetch ?E ?a w1 = (Inr p2, w2)"
    and p2: "url (wr_response p2) = ?a @ ''?r='' @ replicate (length (calls w1)) CHR ''1''"
      "next_url_of None p2 = JStr ?a"
    using redirected_fetch [of w1] by auto
  obtain p3 w3 where f3: "fetch ?E ?a w2 = (Inr p3, w3)"
    using redirected_fetch [of w2] by auto
  have u1: "url (wr_response p1) = ''https://api.example.com/items?r=''"
    using p1 by (simp add: start_world_def)
  have u2: "url (wr_response p2) = ''https://api.example.com/items?r=1''"
    using p2 w1 by (simp add: start_world_def)
  have ua: "url (wr_response self_linked_page) = ?a" "next_url_of None self_linked_page = JStr ?a"
    using self_linked_next by simp_all
  have t3: "paginate_loop ?E 3 None p3 (Suc (Suc (Suc 0)))
              [''https://api.example.com/items?r=1'', ''https://api.example.com/items?r='', ?a] w3 = ([], w3)"
    by (simp add: paginate_loop_done)
  have t2: "paginate_loop ?E 3 None p2 (Suc (Suc 0)) [''https://api.example.com/items?r='', ?a] w2
              = ([p2], w3)"
    using paginate_loop_next [of "Suc (Suc 0)" 3 p2 "[''https://api.example.com/items?r='', ?a]" None ?a ?E
            w2 p3 w3] p2(2) u2 f3 t3
    by simp
  have t1: "paginate_loop ?E 3 None p1 (Suc 0) [?a] w1 = ([p1, p2], w3)"
    using paginate_loop_next [of "Suc 0" 3 p1 "[?a]" None ?a ?E w1 p2 w2] p1(2) u1 f2 t2
    by simp
  have t0: "paginate_loop ?E 3 None self_linked_page 0 [] start_world = ([self_linked_page, p1, p2], w3)"
    using paginate_loop_next [of 0 3 self_linked_page "[]" None ?a ?E start_world p1 w1] ua f1 t1
    by simp
  show ?thesis
    using t0 ua u1 u2 p1(2) p2(2) by (simp add: paginate_def)
qed


text \<open>
  Claim C6, amended: for every starting response, every bound \<open>max_pages\<close> and every
  behaviour of the server, \<open>paginate\<close> returns (the walk is a total function), yields at
  most \<open>max_pages\<close> pages, all reporting different URLs, and issues at most \<open>max_pages\<close>
  transport calls. A turn yields nothing and stops when the bound is reached or when
  the URL reported by the page just fetched was already visited; it yields the page
  and stops when there is no next URL, or when fetching the next page raises (the error
  is dropped); and a page that is yielded stays in the result whatever happens
  afterwards.
\<close>

theorem paginate_bounded:
  "length (fst (paginate E self max_pages next_key w)) \<le> nat max_pages
   \<and> distinct (map (\<lambda>q. url (wr_response q)) (fst (paginate E self max_pages next_key w)))
   \<and> length (calls (snd (paginate E self max_pages next_key w))) \<le> length (calls w) + nat max_pages
   \<and> (\<not> int n < max_pages \<or> url (wr_response p) \<in> set visited
        \<longrightarrow> paginate_loop E max_pages next_key p n visited w = ([], w))
   \<and> (int n < max_pages \<and> url (wr_response p) \<notin> set visited
        \<and> (\<forall>s. next_url_of next_key p = JStr s \<longrightarrow> s = [])
        \<longrightarrow> paginate_loop E max_pages next_key p n visited w = ([p], w))
   \<and> (int n < max_pages \<and> url (wr_response p) \<notin> set visited
        \<and> next_url_of next_key p = JStr s \<and> s \<noteq> [] \<and> fetch E s w = (Inl e, w')
        \<longrightarrow> paginate_loop E max_pages next_key p n visited w = ([p], w'))
   \<and> (int n < max_pages \<and> url (wr_response p) \<notin> set visited
        \<longrightarrow> (\<exists>pages. fst (paginate_loop E max_pages next_key p n visited w) = p # pages))"
proof (intro conjI impI)
  show "length (fst (paginate E self max_pages next_key w)) \<le> nat max_pages"
    using paginate_loop_length [of E max_pages next_key self 0 "[]" w] by (simp add: paginate_def)
  show "distinct (map (\<lambda>q. url (wr_response q)) (fst (paginate E self max_pages next_key w)))"
    using paginate_loop_distinct [of E max_pages next_key self 0 "[]" w] by (simp add: paginate_def)
  show "length (calls (snd (paginate E self max_pages next_key w))) \<le> length (calls w) + nat max_pages"
    using paginate_loop_calls [of E max_pages next_key self 0 "[]" w] by (simp add: paginate_def)
next
  assume "\<not> int n < max_pages \<or> url (wr_response p) \<in> set visited"
  then show "paginate_loop E max_pages next_key p n visited w = ([], w)"
    by (rule paginate_loop_done)
next
  assume "int n < max_pages \<and> url (wr_response p) \<notin> set visited
        \<and> (\<forall>s. next_url_of next_key p = JStr s \<longrightarrow> s = [])"
  then show "paginate_loop E max_pages next_key p n visited w = ([p], w)"
    by (simp add: paginate_loop_no_next)
next
  assume "int n < max_pages \<and> url (wr_response p) \<notin> set visited
        \<and> next_url_of next_key p = JStr s \<and> s \<noteq> [] \<and> fetch E s w = (Inl e, w')"
  then show "paginate_loop E max_pages next_key p n visited w = ([p], w')"
    by (simp add: paginate_loop_fetch_failed)
next
  assume a: "int n < max_pages \<and> url (wr_response p) \<notin> set visited"
  show "\<exists>pages. fst (paginate_loop E max_pages next_key p n visited w) = p # pages"
  proof (cases rule: paginate_loop_cases[where n=n and max_pages=max_pages and p=p
            and visited=visited and next_key=next_key and E=E and w=w])
    case stop
    with a show ?thesis by simp
  next
    case no_link
    then show ?thesis by (simp add: paginate_loop_no_next)
  next
    case (fetch_failed s e w')
    then show ?thesis by (simp add: paginate_loop_fetch_failed)
  next
    case (follow s page w')
    then show ?thesis by (simp add: paginate_loop_next)
  qed
qed

lemma first_page_next:
  "next_url_of None first_page = JStr ''https://api.example.com/items?page=2''"
  by (simp add: next_url_of_def find_next_url_def first_page_def page_from_def json_data_def
        next_patterns_def extract_nested_value_def is_http_url_def startswith_def)

lemma second_page_fetched:
  "fetch (example_env\<lparr>transport := same_next_transport\<rparr>) ''https://api.example.com/items?page=2'' w
     = (Inr \<lparr>wr_response = same_next_page \<lparr>c_time = clock w, c_verb = ''get'',
                 c_url = ''https://api.example.com/items?page=2'', c_mode = Plain\<rparr>,
             wr_parent = UPath (example_path\<lparr>wp_url := ''https://api.example.com/items?page=2'',
                wp_parts := \<lparr>scheme = ''https'', netloc = ''api.example.com'', path = ''/items'',
                              query = ''page=2'', fragment = []\<rparr>\<rparr>)\<rparr>,
        w\<lparr>calls := calls w @ [\<lparr>c_time = clock w, c_verb = ''get'',
                 c_url = ''https://api.example.com/items?page=2'', c_mode = Plain\<rparr>]\<rparr>)"
  by (simp add: url_eval request_eval example_eval same_next_transport_def same_next_page_def)


lemma second_page_next:
  "next_url_of None \<lparr>wr_response = same_next_page c, wr_parent = u\<rparr>
     = JStr ''https://api.example.com/items?page=2''"
  by (simp add: next_url_of_def find_next_url_def same_next_page_def json_data_def
        next_patterns_def extract_nested_value_def is_http_url_def startswith_def)

lemma second_page_step:
  "\<exists>p2 w1. fetch (example_env\<lparr>transport := same_next_transport\<rparr>)
               ''https://api.example.com/items?page=2'' w = (Inr p2, w1)
     \<and> url (wr_response p2) = ''https://api.example.com/items?page=2''
     \<and> next_url_of None p2 = JStr ''https://api.example.com/items?page=2''
     \<and> length (calls w1) = Suc (length (calls w))"
  by (simp add: second_page_fetched second_page_next) (simp add: same_next_page_def)

lemma same_next_walk:
  "map (\<lambda>q. url (wr_response q))
     (fst (paginate (example_env\<lparr>transport := same_next_transport\<rparr>) first_page 100 None start_world))
     = [''https://api.example.com/items'', ''https://api.example.com/items?page=2'']
   \<and> length (calls (snd (paginate (example_env\<lparr>transport := same_next_transport\<rparr>) first_page 100 None
                              start_world))) = 2"
proof -
  let ?E = "example_env\<lparr>transport := same_next_transport\<rparr>"
  let ?u2 = "''https://api.example.com/items?page=2''"
  obtain p2 w1 where f1: "fetch ?E ?u2 start_world = (Inr p2, w1)"
    and p2: "url (wr_response p2) = ?u2" "next_url_of None p2 = JStr ?u2"
    and w1: "length (calls w1) = Suc (length (calls start_world))"
    using second_page_step [of start_world] by blast
  obtain p3 w2 where f2: "fetch ?E ?u2 w1 = (Inr p3, w2)"
    and p3: "url (wr_response p3) = ?u2"
    and w2: "length (calls w2) = Suc (length (calls w1))"
    using second_page_step [of w1] by blast
  have u1: "url (wr_response first_page) = ''https://api.example.com/items''"
    by (simp add: first_page_def page_from_def example_path_def)
  have t3: "paginate_loop ?E 100 None p3 (Suc (Suc 0)) [?u2, ''https://api.example.com/items''] w2 = ([], w2)"
    using p3 by (simp add: paginate_loop_done)
  have t2: "paginate_loop ?E 100 None p2 (Suc 0) [''https://api.example.com/items''] w1 = ([p2], w2)"
    using paginate_loop_next [of "Suc 0" 100 p2 "[''https://api.example.com/items'']" None ?u2 ?E w1 p3 w2]
          p2 f2 t3
    by simp
  have t1: "paginate_loop ?E 100 None first_page 0 [] start_world = ([first_page, p2], w2)"
    using paginate_loop_next [of 0 100 first_page "[]" None ?u2 ?E start_world p2 w1]
          first_page_next f1 t2 u1
    by simp
  show ?thesis
    using t1 u1 p2 w1 w2 by (simp add: paginate_def start_world_def)
qed

theorem paginate_bounded_witness:
  "length (fst (paginate (example_env\<lparr>transport := same_next_transport\<rparr>) first_page 100 None start_world))
     \<le> nat 100
   \<and> distinct (map (\<lambda>q. url (wr_response q))
        (fst (paginate (example_env\<lparr>transport := same_next_transport\<rparr>) first_page 100 None start_world)))
   \<and> length (calls (snd (paginate (example_env\<lparr>transport := same_next_transport\<rparr>) first_page 100 None
          start_world))) \<le> length (calls start_world) + nat 100
   \<and> paginate_loop (example_env\<lparr>transport := same_next_transport\<rparr>) 100 None first_page 1
        [''https://api.example.com/items''] start_world = ([], start_world)
   \<and> paginate_loop example_env 100 None (page_from example_path (JDict [])) 0 [] start_world
        = ([page_from example_path (JDict [])], start_world)
   \<and> paginate_loop example_env 100 None first_page 0 [] start_world
        = ([first_page],
           start_world\<lparr>calls := [\<lparr>c_time = 0, c_verb = ''get'',
               c_url = ''https://api.example.com/items?page=2'', c_mode = Plain\<rparr>]\<rparr>)
   \<and> (\<exists>pages. fst (paginate_loop (example_env\<lparr>transport := same_next_transport\<rparr>) 100 None first_page 0 []
                        start_world) = first_page # pages)"
proof -
  have u1: "url (wr_response first_page) = ''https://api.example.com/items''"
    by (simp add: first_page_def page_from_def example_path_def)
  have no_link: "\<forall>s. next_url_of None (page_from example_path (JDict [])) = JStr s \<longrightarrow> s = []"
    by (simp add: next_url_of_def find_next_url_def page_from_def json_data_def
          next_patterns_def extract_nested_value_def is_http_url_def)
  have failed: "fetch example_env ''https://api.example.com/items?page=2'' start_world
      = (Inl (ConnectionError ''Failed to connect to https://api.example.com/items?page=2''),
         start_world\<lparr>calls := [\<lparr>c_time = 0, c_verb = ''get'',
               c_url = ''https://api.example.com/items?page=2'', c_mode = Plain\<rparr>]\<rparr>)"
    by (simp add: url_eval request_eval example_eval)
  show ?thesis
    using paginate_bounded [of "example_env\<lparr>transport := same_next_transport\<rparr>" first_page 100 None
            start_world 1 first_page "[''https://api.example.com/items'']"]
          paginate_bounded [of example_env first_page 100 None start_world 0
            "page_from example_path (JDict [])" "[]"]
          paginate_bounded [of example_env first_page 100 None start_world 0 first_page "[]"
            "''https://api.example.com/items?page=2''"
            "ConnectionError ''Failed to connect to https://api.example.com/items?page=2''"
            "start_world\<lparr>calls := [\<lparr>c_time = 0, c_verb = ''get'',
               c_url = ''https://api.example.com/items?page=2'', c_mode = Plain\<rparr>]\<rparr>"]
          paginate_bounded [of "example_env\<lparr>transport := same_next_transport\<rparr>" first_page 100 None
            start_world 0 first_page "[]"]
          u1 no_link failed first_page_next
    by (simp add: page_from_def)
qed



section \<open>Downloads\<close>

text \<open>A request never touches the files on disk.\<close>

lemma rate_limit_wait_files: "rate_limit_wait u w = (u', w') \<Longrightarrow> files w' = files w"
  by (auto simp: rate_limit_wait_def Let_def split: url_arg.splits option.splits if_splits)

lemma log_request_files: "files (log_request verb s u r w) = files w"
  by (simp add: log_request_def Let_def split: url_arg.splits)

lemma perform_files: "perform E verb s m w = (out, w1) \<Longrightarrow> files w1 = files w"
  by (auto simp: perform_def Let_def split: prod.splits)

lemma request_uncached_files:
  "request_uncached E verb u s retries backoff jitter session w = (res, u', w') \<Longrightarrow> files w' = files w"
  by (auto simp: request_uncached_def Let_def log_request_files
           split: transport_outcome.splits sum.splits prod.splits if_splits
           dest!: perform_files rate_limit_wait_files)

lemma http_request_files:
  "http_request E verb u retries backoff jitter session w = (res, u', w') \<Longrightarrow> files w' = files w"
  by (auto simp: http_request_def Let_def
           split: sum.splits prod.splits if_splits url_arg.splits option.splits
           dest!: request_uncached_files)

lemma download_try_files_before_open:
  "download_try E u dest chunk retries backoff checksum algorithm w = (res, u', w') \<Longrightarrow>
     files w' = files w \<or> (\<exists>data. files w' = (files w)(dest \<mapsto> data))"
  by (auto simp: download_try_def Let_def
           split: sum.splits prod.splits if_splits option.splits
           dest!: http_request_files)


text \<open>The request of the example path, answered and refused.\<close>

lemma open_request:
  "transport E = open_transport \<Longrightarrow>
   http_request E ''get'' (UPath example_path) retries backoff 0 None w
     = (Inr \<lparr>wr_response = empty_page \<lparr>c_time = clock w, c_verb = ''get'',
                 c_url = ''https://api.example.com/items'',
                 c_mode = (case retries of None \<Rightarrow> Plain
                           | Some n \<Rightarrow> if n \<noteq> 0 then ViaRetryAdapter n backoff 0 else Plain)\<rparr>,
             wr_parent = UPath example_path\<rparr>,
        UPath example_path,
        w\<lparr>calls := calls w @ [\<lparr>c_time = clock w, c_verb = ''get'',
                 c_url = ''https://api.example.com/items'',
                 c_mode = (case retries of None \<Rightarrow> Plain
                           | Some n \<Rightarrow> if n \<noteq> 0 then ViaRetryAdapter n backoff 0 else Plain)\<rparr>]\<rparr>)"
  by (simp add: request_eval Let_def example_path_def open_transport_def empty_page_def)

lemma silent_request:
  "http_request example_env ''get'' (UPath example_path) retries backoff 0 None w
     = (Inl (ConnectionError ''Failed to connect to https://api.example.com/items''),
        UPath example_path,
        w\<lparr>calls := calls w @ [\<lparr>c_time = clock w, c_verb = ''get'',
                 c_url = ''https://api.example.com/items'',
                 c_mode = (case retries of None \<Rightarrow> Plain
                           | Some n \<Rightarrow> if n \<noteq> 0 then ViaRetryAdapter n backoff 0 else Plain)\<rparr>]\<rparr>)"
  by (simp add: request_eval Let_def example_path_def example_env_def silent_transport_def)






text \<open>
  Claim C10: when the download fails before anything is written (the request raises,
  or the name of the checksum algorithm is unknown) and a file was at the destination
  before the call, that file is still there when the failure happens and the handler
  deletes it.
\<close>

theorem failed_download_deletes_existing_file:
  "(http_request E ''get'' u retries backoff 0 None w = (Inl e, u1, w1) \<and> files w dest = Some old
      \<longrightarrow> download_file E u dest chunk retries backoff checksum algorithm w
            = (Inl e, u1, w1\<lparr>files := (files w1)(dest := None)\<rparr>)
          \<and> files w1 dest = Some old)
   \<and> (http_request E ''get'' u retries backoff 0 None w = (Inr r, u1, w1)
        \<and> \<not> (400 \<le> status_code (wr_response r) \<and> status_code (wr_response r) < 600)
        \<and> content_length E (wr_response r) = Inr n
        \<and> c \<noteq> [] \<and> hash_new E algorithm = None \<and> files w dest = Some old
      \<longrightarrow> download_file E u dest chunk retries backoff (Some c) algorithm w
            = (Inl (ValueError (''unsupported hash type '' @ algorithm)), u1,
               w1\<lparr>files := (files w1)(dest := None)\<rparr>)
          \<and> files w1 dest = Some old)"
proof (intro conjI impI)
  assume a: "http_request E ''get'' u retries backoff 0 None w = (Inl e, u1, w1) \<and> files w dest = Some old"
  then show "files w1 dest = Some old"
    using http_request_files [of E "''get''" u retries backoff 0 None w "Inl e" u1 w1] by simp
  with a show "download_file E u dest chunk retries backoff checksum algorithm w
            = (Inl e, u1, w1\<lparr>files := (files w1)(dest := None)\<rparr>)"
    by (simp add: download_file_def download_try_def)
next
  assume a: "http_request E ''get'' u retries backoff 0 None w = (Inr r, u1, w1)
        \<and> \<not> (400 \<le> status_code (wr_response r) \<and> status_code (wr_response r) < 600)
        \<and> content_length E (wr_response r) = Inr n
        \<and> c \<noteq> [] \<and> hash_new E algorithm = None \<and> files w dest = Some old"
  then show f: "files w1 dest = Some old"
    using http_request_files [of E "''get''" u retries backoff 0 None w "Inr r" u1 w1] by simp
  with a show "download_file E u dest chunk retries backoff (Some c) algorithm w
            = (Inl (ValueError (''unsupported hash type '' @ algorithm)), u1,
               w1\<lparr>files := (files w1)(dest := None)\<rparr>)"
    by (simp add: download_file_def download_try_def Let_def)
qed


theorem failed_download_deletes_existing_file_witness:
  "files world_with_file ''out.bin'' = Some ''old data''
   \<and> fst (download_file example_env (UPath example_path) ''out.bin'' 8192 (Some 3) (3 / 10) None ''sha256''
            world_with_file)
       = Inl (ConnectionError ''Failed to connect to https://api.example.com/items'')
   \<and> files (snd (snd (download_file example_env (UPath example_path) ''out.bin'' 8192 (Some 3) (3 / 10) None
            ''sha256'' world_with_file))) ''out.bin'' = None
   \<and> fst (download_file (example_env\<lparr>transport := open_transport\<rparr>) (UPath example_path) ''out.bin'' 8192
            (Some 3) (3 / 10) (Some ''ab12'') ''sha257'' world_with_file)
       = Inl (ValueError ''unsupported hash type sha257'')
   \<and> files (snd (snd (download_file (example_env\<lparr>transport := open_transport\<rparr>) (UPath example_path)
            ''out.bin'' 8192 (Some 3) (3 / 10) (Some ''ab12'') ''sha257'' world_with_file))) ''out.bin'' = None"
proof -
  let ?O = "example_env\<lparr>transport := open_transport\<rparr>"
  let ?c = "\<lparr>c_time = 0, c_verb = ''get'', c_url = ''https://api.example.com/items'',
             c_mode = ViaRetryAdapter 3 (3 / 10) 0\<rparr>"
  let ?r = "\<lparr>wr_response = empty_page ?c, wr_parent = UPath example_path\<rparr>"
  have old: "files world_with_file ''out.bin'' = Some ''old data''"
    by (simp add: world_with_file_def)
  have failed: "http_request example_env ''get'' (UPath example_path) (Some 3) (3 / 10) 0 None world_with_file
      = (Inl (ConnectionError ''Failed to connect to https://api.example.com/items''), UPath example_path,
         world_with_file\<lparr>calls := [?c]\<rparr>)"
    using silent_request [of "Some 3" "3 / 10" world_with_file]
    by (simp add: world_with_file_def start_world_def)
  have answered: "http_request ?O ''get'' (UPath example_path) (Some 3) (3 / 10) 0 None world_with_file
      = (Inr ?r, UPath example_path, world_with_file\<lparr>calls := [?c]\<rparr>)"
    using open_request [of ?O "Some 3" "3 / 10" world_with_file]
    by (simp add: world_with_file_def start_world_def)
  have pre: "\<not> (400 \<le> status_code (wr_response ?r) \<and> status_code (wr_response ?r) < 600)
      \<and> content_length ?O (wr_response ?r) = Inr 0 \<and> ''ab12'' \<noteq> [] \<and> hash_new ?O ''sha257'' = None"
    by (simp add: empty_page_def content_length_def example_env_def)
  show ?thesis
    using failed_download_deletes_existing_file
            [of example_env "UPath example_path" "Some 3" "3 / 10" world_with_file
                "ConnectionError ''Failed to connect to https://api.example.com/items''"
                "UPath example_path" "world_with_file\<lparr>calls := [?c]\<rparr>" "''out.bin''" "''old data''"
                8192 None "''sha256''"]
          failed_download_deletes_existing_file
            [of ?O "UPath example_path" "Some 3" "3 / 10" world_with_file _ "UPath example_path"
                "world_with_file\<lparr>calls := [?c]\<rparr>" "''out.bin''" "''old data''" 8192 _ "''sha257''"
                ?r 0 "''ab12''"]
          old failed answered pre
    by simp
qed



section \<open>The cache check and the cache write\<close>






section \<open>Rate limiting\<close>







section \<open>Error classification\<close>

text \<open>
  Claim C5, as stated: the message of the status error incorporates the status code.
  For a 401 from \<open>api.example.com\<close> the message is \<open>Authentication failed for
  api.example.com. Check your API credentials.\<close>, which does not hold \<open>401\<close>.
\<close>

theorem status_message_without_code_counterexample:
  "get_helpful_error_message example_env (error_page 401 None) ''https://api.example.com/items''
     = Inr ''Authentication failed for api.example.com. Check your API credentials.''
   \<and> \<not> sublist (str_int 401) ''Authentication failed for api.example.com. Check your API credentials.''"
proof -
  have "str_int 401 = ''401''"
    by (simp add: str_int_def)
  moreover have "\<not> sublist ''401'' ''Authentication failed for api.example.com. Check your API credentials.''"
    by (simp add: sublist_code)
  moreover have "get_helpful_error_message example_env (error_page 401 None) ''https://api.example.com/items''
     = Inr ''Authentication failed for api.example.com. Check your API credentials.''"
    by (simp add: get_helpful_error_message_def error_page_def error_details_def url_eval example_env_def
          example_checks_def)
  ultimately show ?thesis by simp
qed


lemma sublist_second: "sublist x (a @ x @ b)"
  by simp

lemma sublist_third: "sublist x (a @ b @ x @ c)"
  by (metis append_assoc sublist_appendI)

lemma sublist_fourth: "sublist x (a @ b @ c @ x @ d)"
  by (metis append_assoc sublist_appendI)

lemma sublist_sixth: "sublist x (a @ b @ c @ d @ e @ x)"
  by (metis append_assoc sublist_append_leftI)

lemma sublist_last2: "sublist x (a @ x)"
  by simp

lemma sublist_last3: "sublist x (a @ b @ x)"
  by (metis append_assoc sublist_append_leftI)

lemma sublist_last4: "sublist x (a @ b @ c @ x)"
  by (metis append_assoc sublist_append_leftI)

lemma sublist_last5: "sublist x (a @ b @ c @ d @ x)"
  by (metis append_assoc sublist_append_leftI)

lemma message_parts:
  assumes "get_helpful_error_message E r u = Inr msg" and "urlsplit (checks E) u = Inr parts"
  shows "(status_code r \<noteq> 404 \<longrightarrow> sublist (case hostname parts of None \<Rightarrow> ''None'' | Some h \<Rightarrow> h) msg)
     \<and> (status_code r = 404 \<longrightarrow> sublist u msg)
     \<and> sublist (error_details E r) msg
     \<and> (status_code r \<notin> {401, 403, 404, 429} \<and> status_code r < 500 \<longrightarrow> sublist (str_int (status_code r)) msg)"
  using assms
  by (auto simp add: get_helpful_error_message_def Let_def sublist_second sublist_third sublist_fourth
        sublist_sixth sublist_last2 sublist_last3 sublist_last4 sublist_last5
        simp del: append.simps split: if_splits)


lemma reaches_transport_request:
  assumes "reaches_transport p verb w"
  shows "\<exists>u. fst (http_request E verb (UPath p) retries backoff jitter session w)
           = fst (request_uncached E verb u (wp_url p) retries backoff jitter session w)"
proof (cases "wp_cache_config p")
  case None
  with assms show ?thesis
    by (auto simp: reaches_transport_def http_request_def Let_def)
next
  case (Some c)
  with assms obtain c' where "cache_get c (clock w) verb (wp_url p) = (None, c')"
    by (cases "cache_get c (clock w) verb (wp_url p)") (auto simp: reaches_transport_def)
  with assms Some show ?thesis
    by (auto simp: reaches_transport_def http_request_def Let_def)
qed


text \<open>
  Claim C5, amended: a request that reaches the transport raises the status error
  exactly when the response's status is in 400..599, and returns a navigator for any
  other response. The message holds the host name (for 404 the requested URL instead)
  and the extracted details, which for a JSON object body are the first of the fields
  \<open>error\<close>, \<open>message\<close>, \<open>error_description\<close>, \<open>detail\<close>; it holds the status code when
  the status is below 500 and none of 401, 403, 404, 429. A connection failure is
  raised as \<open>ConnectionError\<close>, a timeout as \<open>TimeoutError\<close>; any other exception of the
  transport passes through.
\<close>

theorem status_error_for_4xx_5xx:
  "(reaches_transport p verb w \<and> urlsplit (checks E) (wp_url p) = Inr parts
     \<and> transport E (calls w) \<lparr>c_time = clock w, c_verb = verb, c_url = wp_url p,
                       c_mode = request_mode retries backoff jitter session\<rparr> = (out, d)
    \<longrightarrow> (case out of
           Responded r \<Rightarrow>
             if 400 \<le> status_code r \<and> status_code r < 600
             then (\<exists>msg. fst (http_request E verb (UPath p) retries backoff jitter session w)
                           = Inl (HTTPError msg)
                    \<and> (status_code r \<noteq> 404
                        \<longrightarrow> sublist (case hostname parts of None \<Rightarrow> ''None'' | Some h \<Rightarrow> h) msg)
                    \<and> (status_code r = 404 \<longrightarrow> sublist (wp_url p) msg)
                    \<and> sublist (error_details E r) msg
                    \<and> (status_code r \<notin> {401, 403, 404, 429} \<and> status_code r < 500
                        \<longrightarrow> sublist (str_int (status_code r)) msg))
             else (\<exists>page. fst (http_request E verb (UPath p) retries backoff jitter session w) = Inr page)
         | RaisedConnectionError \<Rightarrow>
             fst (http_request E verb (UPath p) retries backoff jitter session w)
               = Inl (ConnectionError (''Failed to connect to '' @ wp_url p))
         | RaisedTimeout \<Rightarrow>
             fst (http_request E verb (UPath p) retries backoff jitter session w)
               = Inl (TimeoutError (''Request to '' @ wp_url p @ '' timed out''))
         | Raised x \<Rightarrow>
             fst (http_request E verb (UPath p) retries backoff jitter session w) = Inl x))
   \<and> (json_body r' = Some (JDict kvs)
        \<and> first_detail kvs [''error'', ''message'', ''error_description'', ''detail''] = Some v
      \<longrightarrow> error_details E r' = '' - '' @ py_format E v)"
proof (intro conjI impI)
  assume a: "reaches_transport p verb w \<and> urlsplit (checks E) (wp_url p) = Inr parts
     \<and> transport E (calls w) \<lparr>c_time = clock w, c_verb = verb, c_url = wp_url p,
                       c_mode = request_mode retries backoff jitter session\<rparr> = (out, d)"
  then obtain u where u: "fst (http_request E verb (UPath p) retries backoff jitter session w)
           = fst (request_uncached E verb u (wp_url p) retries backoff jitter session w)"
    using reaches_transport_request by blast
  show "case out of
           Responded r \<Rightarrow>
             if 400 \<le> status_code r \<and> status_code r < 600
             then (\<exists>msg. fst (http_request E verb (UPath p) retries backoff jitter session w)
                           = Inl (HTTPError msg)
                    \<and> (status_code r \<noteq> 404
                        \<longrightarrow> sublist (case hostname parts of None \<Rightarrow> ''None'' | Some h \<Rightarrow> h) msg)
                    \<and> (status_code r = 404 \<longrightarrow> sublist (wp_url p) msg)
                    \<and> sublist (error_details E r) msg
                    \<and> (status_code r \<notin> {401, 403, 404, 429} \<and> status_code r < 500
                        \<longrightarrow> sublist (str_int (status_code r)) msg))
             else (\<exists>page. fst (http_request E verb (UPath p) retries backoff jitter session w) = Inr page)
         | RaisedConnectionError \<Rightarrow>
             fst (http_request E verb (UPath p) retries backoff jitter session w)
               = Inl (ConnectionError (''Failed to connect to '' @ wp_url p))
         | RaisedTimeout \<Rightarrow>
             fst (http_request E verb (UPath p) retries backoff jitter session w)
               = Inl (TimeoutError (''Request to '' @ wp_url p @ '' timed out''))
         | Raised x \<Rightarrow>
             fst (http_request E verb (UPath p) retries backoff jitter session w) = Inl x"
  proof (cases out)
    case (Responded r)
    show ?thesis
    proof (cases "400 \<le> status_code r \<and> status_code r < 600")
      case True
      obtain msg where m: "get_helpful_error_message E r (wp_url p) = Inr msg"
        using a by (auto simp: get_helpful_error_message_def Let_def)
      have "fst (request_uncached E verb u (wp_url p) retries backoff jitter session w) = Inl (HTTPError msg)"
        using a Responded True m by (simp add: request_uncached_def perform_def Let_def)
      with message_parts [OF m] a u Responded True show ?thesis by auto
    next
      case False
      with a u Responded show ?thesis
        by (auto simp: request_uncached_def perform_def Let_def split: prod.splits)
    qed
  next
    case RaisedConnectionError
    with a u show ?thesis by (simp add: request_uncached_def perform_def Let_def)
  next
    case RaisedTimeout
    with a u show ?thesis by (simp add: request_uncached_def perform_def Let_def)
  next
    case (Raised x)
    with a u show ?thesis by (simp add: request_uncached_def perform_def Let_def)
  qed
next
  assume "json_body r' = Some (JDict kvs)
        \<and> first_detail kvs [''error'', ''message'', ''error_description'', ''detail''] = Some v"
  then show "error_details E r' = '' - '' @ py_format E v"
    by (simp add: error_details_def)
qed


theorem status_error_for_4xx_5xx_witness:
  "(\<exists>msg. fst (http_request (example_env\<lparr>transport := not_found_transport\<rparr>) ''get'' (UPath example_path)
                  None (3 / 10) 0 None start_world) = Inl (HTTPError msg)
       \<and> sublist ''https://api.example.com/items'' msg
       \<and> sublist '' - no such item'' msg)
   \<and> fst (http_request example_env ''get'' (UPath example_path) None (3 / 10) 0 None start_world)
       = Inl (ConnectionError ''Failed to connect to https://api.example.com/items'')
   \<and> error_details example_env (error_page 404 (Some (JDict [(''message'', JStr ''no such item'')])))
       = '' - no such item''"
proof -
  let ?N = "example_env\<lparr>transport := not_found_transport\<rparr>"
  let ?r = "error_page 404 (Some (JDict [(''message'', JStr ''no such item'')]))"
  let ?parts = "\<lparr>scheme = ''https'', netloc = ''api.example.com'', path = ''/items'', query = [],
                  fragment = []\<rparr>"
  have reach: "reaches_transport example_path ''get'' start_world"
    by (simp add: reaches_transport_def example_path_def http_schemes_def)
  have split: "urlsplit (checks ?N) (wp_url example_path) = Inr ?parts
      \<and> urlsplit (checks example_env) (wp_url example_path) = Inr ?parts"
    by (simp add: url_eval example_env_def example_checks_def example_path_def)
  have answer: "transport ?N (calls start_world)
        \<lparr>c_time = clock start_world, c_verb = ''get'', c_url = wp_url example_path,
         c_mode = request_mode None (3 / 10) 0 None\<rparr> = (Responded ?r, 0)"
    by (simp add: not_found_transport_def)
  have refused: "transport example_env (calls start_world)
        \<lparr>c_time = clock start_world, c_verb = ''get'', c_url = wp_url example_path,
         c_mode = request_mode None (3 / 10) 0 None\<rparr> = (RaisedConnectionError, 0)"
    by (simp add: example_env_def silent_transport_def)
  have body: "json_body ?r = Some (JDict [(''message'', JStr ''no such item'')])
      \<and> first_detail [(''message'', JStr ''no such item'')]
            [''error'', ''message'', ''error_description'', ''detail''] = Some (JStr ''no such item'')"
    by (simp add: error_page_def)
  have details: "error_details ?N ?r = '' - no such item''"
    by (simp add: error_details_def error_page_def py_format_def)
  have facts: "status_code ?r = 404 \<and> wp_url example_path = ''https://api.example.com/items''
      \<and> py_format example_env (JStr ''no such item'') = ''no such item''"
    by (simp add: error_page_def example_path_def py_format_def)
  show ?thesis
    using status_error_for_4xx_5xx
            [of example_path "''get''" start_world ?N ?parts None "3 / 10" 0 None "Responded ?r" 0
                ?r "[(''message'', JStr ''no such item'')]" "JStr ''no such item''"]
          status_error_for_4xx_5xx
            [of example_path "''get''" start_world example_env ?parts None "3 / 10" 0 None
                RaisedConnectionError 0 ?r "[(''message'', JStr ''no such item'')]" "JStr ''no such item''"]
          reach split answer refused body details facts
    by simp
qed


section \<open>Joining path segments\<close>

subsection \<open>Splitting a URL that was joined from its components\<close>

lemma takeWhile_stop:
  "list_all P xs \<Longrightarrow> ys = [] \<or> \<not> P (hd ys) \<Longrightarrow> takeWhile P (xs @ ys) = xs"
  by (induction xs) (auto simp: neq_Nil_conv takeWhile_eq_Nil_iff)

lemma filter_safe: "safe_string s \<Longrightarrow> filter (\<lambda>c. \<not> unsafe_url_byte c) s = s"
  by (induction s) (auto simp: safe_string_def)

lemma safe_string_append [simp]: "safe_string (a @ b) = (safe_string a \<and> safe_string b)"
  by (simp add: safe_string_def)

lemma partition_at_found:
  "list_all (\<lambda>x. x \<noteq> c) a \<Longrightarrow> partition_at c (a @ c # b) = (a, True, b)"
  by (simp add: partition_at_def Let_def takeWhile_stop [where ys = "c # b"])

lemma partition_at_absent:
  "list_all (\<lambda>x. x \<noteq> c) a \<Longrightarrow> partition_at c a = (a, False, [])"
proof -
  assume "list_all (\<lambda>x. x \<noteq> c) a"
  then have t: "takeWhile (\<lambda>x. x \<noteq> c) a = a"
    by (simp add: takeWhile_eq_all_conv list_all_iff)
  show ?thesis
    unfolding partition_at_def Let_def t by simp
qed

lemma split_scheme_http:
  "sc \<in> set http_schemes \<Longrightarrow> split_scheme (sc @ CHR '':'' # r) = (sc, r)"
  by (auto simp: http_schemes_def split_scheme_def Let_def is_lower_def is_upper_def is_digit_def
        scheme_char_def lower_def lower_char_def upper_letters_def lower_letters_def)

lemma urlsplit_assembled:
  assumes sc: "sc \<in> set http_schemes"
    and nl: "list_all (\<lambda>c. c \<notin> set ''/?#'') nl" "safe_string nl" "netloc_error N nl = None"
    and rest: "safe_string rest" "rest = [] \<or> hd rest \<in> set ''/?#''"
  shows "urlsplit N (sc @ ''://'' @ nl @ rest) =
           Inr \<lparr>scheme = sc, netloc = nl,
                path = fst (partition_at CHR ''?'' (fst (partition_at CHR ''#'' rest))),
                query = snd (snd (partition_at CHR ''?'' (fst (partition_at CHR ''#'' rest)))),
                fragment = snd (snd (partition_at CHR ''#'' rest))\<rparr>"
proof -
  have start: "dropWhile c0_control_or_space (sc @ ''://'' @ nl @ rest) = sc @ ''://'' @ nl @ rest"
    using sc by (auto simp: http_schemes_def c0_control_or_space_def)
  have "safe_string sc" using sc by (auto simp: http_schemes_def safe_string_def unsafe_url_byte_def)
  then have u1: "filter (\<lambda>c. \<not> unsafe_url_byte c) (sc @ ''://'' @ nl @ rest) = sc @ ''://'' @ nl @ rest"
    using nl rest by (intro filter_safe) (simp add: safe_string_def unsafe_url_byte_def)
  have u2: "split_scheme (sc @ ''://'' @ nl @ rest) = (sc, ''//'' @ nl @ rest)"
    using split_scheme_http [OF sc, of "''//'' @ nl @ rest"] by simp
  have net: "takeWhile (\<lambda>c. c \<notin> set ''/?#'') (nl @ rest) = nl"
    using nl(1) rest(2) by (intro takeWhile_stop) auto
  have u3: "splitnetloc (''//'' @ nl @ rest) = (nl, rest)"
    using net by (simp add: splitnetloc_def Let_def)
  show ?thesis
    using start u1 u2 u3 nl(3)
    by (simp add: urlsplit_def Let_def split: prod.splits)
qed

lemma set_rstrip: "set (rstrip cs s) \<subseteq> set s"
  unfolding rstrip_def by (metis set_dropWhileD set_rev subsetI)

lemma rstrip_keeps:
  "c \<notin> set cs \<Longrightarrow> rstrip cs (a @ c # b) = a @ c # rstrip cs b"
  by (simp add: rstrip_def dropWhile_append)

lemma rstrip_no_trailing: "rstrip cs s = [] \<or> last (rstrip cs s) \<notin> set cs"
  unfolding rstrip_def by (metis hd_dropWhile last_rev rev_is_Nil_conv)

lemma lstrip_no_leading: "lstrip cs s = [] \<or> hd (lstrip cs s) \<notin> set cs"
  unfolding lstrip_def by (metis hd_dropWhile)

lemma hex_digit_in: "hex_digit n \<in> set ''0123456789ABCDEF''"
proof -
  have "n mod 16 < length ''0123456789ABCDEF''" by simp
  then show ?thesis unfolding hex_digit_def by (rule nth_mem)
qed

lemma quote_chars: "list_all quoted_char (quote s)"
proof (induction s)
  case Nil
  show ?case by (simp add: quote_def)
next
  case (Cons c s)
  then show ?case
    using hex_digit_in [of "of_char c div 16"] hex_digit_in [of "of_char c mod 16"]
    by (simp add: quote_def quote_char_def quoted_char_def)
qed

lemma quoted_char_plain:
  "quoted_char c \<Longrightarrow> c \<notin> set ''?#'' \<and> \<not> unsafe_url_byte c \<and> c \<notin> set whitespace"
  by (auto simp: quoted_char_def quote_safe_def is_upper_def is_lower_def is_digit_def
        unsafe_url_byte_def whitespace_def)

lemma quote_head: "quote s = [] \<or> hd (quote s) = CHR ''/'' \<longleftrightarrow> s = [] \<or> hd s = CHR ''/''"
  by (cases s) (auto simp: quote_def quote_char_def quote_safe_def)

lemma urlunsplit_assembled:
  assumes "scheme p \<in> set http_schemes" "netloc p \<noteq> []" "take 1 (path p) = ''/''"
  shows "urlunsplit p = scheme p @ ''://'' @ netloc p @ path p @ url_tail (query p) (fragment p)"
proof -
  have "scheme p \<noteq> []" "path p \<noteq> []"
    using assms by (auto simp: http_schemes_def)
  with assms show ?thesis
    by (simp add: urlunsplit_def url_tail_def Let_def)
qed

lemma partition_tail:
  assumes "list_all (\<lambda>c. c \<notin> set ''?#'') np" "list_all (\<lambda>c. c \<noteq> CHR ''#'') q"
  shows "partition_at CHR ''#'' (np @ url_tail q f) = (np @ (if q \<noteq> [] then ''?'' @ q else []), f \<noteq> [], f)"
    and "partition_at CHR ''?'' (np @ (if q \<noteq> [] then ''?'' @ q else [])) = (np, q \<noteq> [], q)"
proof -
  have a: "list_all (\<lambda>x. x \<noteq> CHR ''#'') (np @ (if q \<noteq> [] then ''?'' @ q else []))"
    using assms by (auto simp: list_all_iff)
  show "partition_at CHR ''#'' (np @ url_tail q f) = (np @ (if q \<noteq> [] then ''?'' @ q else []), f \<noteq> [], f)"
  proof (cases "f = []")
    case True
    then show ?thesis using partition_at_absent [OF a] by (simp add: url_tail_def)
  next
    case False
    then show ?thesis using partition_at_found [OF a, of f] by (simp add: url_tail_def)
  qed
  have b: "list_all (\<lambda>x. x \<noteq> CHR ''?'') np"
    using assms by (auto simp: list_all_iff)
  show "partition_at CHR ''?'' (np @ (if q \<noteq> [] then ''?'' @ q else [])) = (np, q \<noteq> [], q)"
  proof (cases "q = []")
    case True
    then show ?thesis using partition_at_absent [OF b] by simp
  next
    case False
    then show ?thesis using partition_at_found [OF b, of q] by simp
  qed
qed

lemma urlsplit_roundtrip:
  assumes "parts_ok N p" "take 1 (path p) = ''/''"
  shows "urlsplit N (scheme p @ ''://'' @ netloc p @ path p @ url_tail (query p) (fragment p)) = Inr p"
proof -
  let ?rest = "path p @ url_tail (query p) (fragment p)"
  have safe: "safe_string (netloc p)" "safe_string ?rest"
    using assms(1) by (auto simp: parts_ok_def url_tail_def safe_string_def unsafe_url_byte_def)
  have hd: "?rest = [] \<or> hd ?rest \<in> set ''/?#''"
    using assms(2) by (cases "path p") auto
  have "urlsplit N (scheme p @ ''://'' @ netloc p @ ?rest) =
           Inr \<lparr>scheme = scheme p, netloc = netloc p,
                path = fst (partition_at CHR ''?'' (fst (partition_at CHR ''#'' ?rest))),
                query = snd (snd (partition_at CHR ''?'' (fst (partition_at CHR ''#'' ?rest)))),
                fragment = snd (snd (partition_at CHR ''#'' ?rest))\<rparr>"
    using assms(1) safe hd by (intro urlsplit_assembled) (auto simp: parts_ok_def)
  also have "\<dots> = Inr p"
    using assms(1) partition_tail(1) [of "path p" "query p" "fragment p"]
      partition_tail(2) [of "path p" "query p"]
    by (simp add: parts_ok_def)
  finally show ?thesis .
qed

lemma endswith_slash: "endswith s ''/'' = (s \<noteq> [] \<and> last s = CHR ''/'')"
  by (cases s rule: rev_cases) (auto simp: endswith_def)

lemma rstrip_prefix: "\<exists>t. s = rstrip cs s @ t"
proof -
  have "rev s = takeWhile (\<lambda>c. c \<in> set cs) (rev s) @ dropWhile (\<lambda>c. c \<in> set cs) (rev s)"
    by simp
  then have "s = rev (dropWhile (\<lambda>c. c \<in> set cs) (rev s)) @ rev (takeWhile (\<lambda>c. c \<in> set cs) (rev s))"
    by (metis rev_append rev_rev_ident)
  then show ?thesis unfolding rstrip_def by blast
qed

lemma lstrip_http:
  "sc \<in> set http_schemes \<Longrightarrow> lstrip whitespace (sc @ r) = sc @ r"
  by (auto simp: http_schemes_def lstrip_def whitespace_def)

lemma init_assembled:
  assumes "sc \<in> set http_schemes" "nl \<noteq> []" "list_all (\<lambda>c. c \<notin> set ''/?#'') nl" "safe_string nl"
    "netloc_error N nl = None" "safe_string r"
  shows "\<exists>x. webpath_init N (sc @ ''://'' @ nl @ CHR ''/'' # r) = Inr x"
proof -
  have strip: "strip (sc @ ''://'' @ nl @ CHR ''/'' # r) = sc @ ''://'' @ nl @ CHR ''/'' # rstrip whitespace r"
    using lstrip_http [OF assms(1), of "''://'' @ nl @ CHR ''/'' # r"]
      rstrip_keeps [of "CHR ''/''" whitespace "sc @ ''://'' @ nl" r]
    by (simp add: strip_def whitespace_def)
  have "safe_string (rstrip whitespace r)"
    using assms(6) set_rstrip [of whitespace r] by (auto simp: safe_string_def list_all_iff)
  then have "safe_string (CHR ''/'' # rstrip whitespace r)"
    by (simp add: safe_string_def unsafe_url_byte_def)
  then obtain parts where split: "urlsplit N (sc @ ''://'' @ nl @ CHR ''/'' # rstrip whitespace r) = Inr parts"
    and "scheme parts = sc" "netloc parts = nl"
    using urlsplit_assembled [OF assms(1) assms(3) assms(4) assms(5), of "CHR ''/'' # rstrip whitespace r"]
    by auto
  then show ?thesis
    using strip assms(1) assms(2)
    by (auto simp: webpath_init_def Let_def http_schemes_def)
qed

lemma init_without_tail:
  assumes "parts_ok N p" "take 1 (path p) = ''/''" "query p = []" "fragment p = []"
    "last (path p) \<notin> set whitespace"
  shows "\<exists>x. webpath_init N (scheme p @ ''://'' @ netloc p @ path p) = Inr x \<and> \<not> wp_trailing_slash x"
proof -
  let ?u = "scheme p @ ''://'' @ netloc p @ path p"
  have ne: "path p \<noteq> []" using assms(2) by auto
  then obtain a c where ac: "path p = a @ [c]" by (metis rev_exhaust)
  with assms(5) have c: "c \<notin> set whitespace" by simp
  have "rstrip whitespace ?u = ?u"
    using rstrip_keeps [OF c, of "scheme p @ ''://'' @ netloc p @ a" "[]"] ac
    by (simp add: rstrip_def)
  moreover have "lstrip whitespace ?u = ?u"
    using assms(1) lstrip_http by (simp add: parts_ok_def)
  ultimately have strip: "strip ?u = ?u" by (simp add: strip_def)
  have split: "urlsplit N ?u = Inr p"
    using urlsplit_roundtrip [OF assms(1) assms(2)] assms(3) assms(4) by (simp add: url_tail_def)
  have "endswith ?u ''/'' = endswith (path p) ''/''"
    using ne by (simp add: endswith_slash)
  then show ?thesis
    using strip split assms(1) ne
    by (auto simp: webpath_init_def Let_def parts_ok_def http_schemes_def)
qed

lemma quote_plain:
  assumes "c \<in> set (quote s)"
  shows "c \<noteq> CHR ''?''" "c \<noteq> CHR ''#''" "\<not> unsafe_url_byte c" "c \<notin> set whitespace"
proof -
  have "quoted_char c"
    using quote_chars [of s] assms by (simp add: list_all_iff)
  then have "c \<notin> set ''?#'' \<and> \<not> unsafe_url_byte c \<and> c \<notin> set whitespace"
    by (rule quoted_char_plain)
  then show "c \<noteq> CHR ''?''" "c \<noteq> CHR ''#''" "\<not> unsafe_url_byte c" "c \<notin> set whitespace"
    by simp_all
qed

lemma join_path_props:
  assumes "pa = [] \<or> take 1 pa = ''/''" "list_all (\<lambda>c. c \<notin> set ''?#'') pa" "safe_string pa"
  shows "take 1 (normalized_join pa seg) = ''/''"
    and "list_all (\<lambda>c. c \<notin> set ''?#'') (normalized_join pa seg)"
    and "safe_string (normalized_join pa seg)"
    and "last (normalized_join pa seg) \<notin> set whitespace"
proof -
  define qs where "qs = quote (lstrip ''/'' seg)"
  define rs where "rs = rstrip ''/'' pa"
  have jp: "normalized_join pa seg = rs @ CHR ''/'' # qs"
    by (simp add: normalized_join_def qs_def rs_def)
  obtain t where t: "pa = rs @ t" unfolding rs_def using rstrip_prefix by blast
  have sub: "set rs \<subseteq> set pa" unfolding rs_def by (rule set_rstrip)
  show "take 1 (normalized_join pa seg) = ''/''"
  proof (cases rs)
    case Nil
    then show ?thesis by (simp add: jp)
  next
    case (Cons c cs)
    with t have "pa = c # cs @ t" by simp
    with assms(1) have "c = CHR ''/''" by auto
    with Cons show ?thesis by (simp add: jp)
  qed
  have rs1: "\<forall>c\<in>set rs. c \<noteq> CHR ''?'' \<and> c \<noteq> CHR ''#''"
    using assms(2) sub by (auto simp: list_all_iff)
  have rs2: "\<forall>c\<in>set rs. \<not> unsafe_url_byte c"
    using assms(3) sub by (auto simp: safe_string_def list_all_iff)
  have qs1: "\<forall>c\<in>set qs. c \<noteq> CHR ''?'' \<and> c \<noteq> CHR ''#''"
    unfolding qs_def using quote_plain(1,2) by blast
  have qs2: "\<forall>c\<in>set qs. \<not> unsafe_url_byte c"
    unfolding qs_def using quote_plain(3) by blast
  have slash: "\<not> unsafe_url_byte CHR ''/''"
    by (simp add: unsafe_url_byte_def)
  show "list_all (\<lambda>c. c \<notin> set ''?#'') (normalized_join pa seg)"
    using rs1 qs1 by (auto simp: jp list_all_iff)
  show "safe_string (normalized_join pa seg)"
    using rs2 qs2 slash by (auto simp: jp safe_string_def list_all_iff)
  show "last (normalized_join pa seg) \<notin> set whitespace"
  proof (cases "qs = []")
    case True
    then show ?thesis by (simp add: jp whitespace_def)
  next
    case False
    then have "last (normalized_join pa seg) = last qs" by (simp add: jp)
    moreover have "last qs \<in> set qs" using False by simp
    ultimately show ?thesis unfolding qs_def using quote_plain(4) by metis
  qed
qed

lemma slash_into_tail:
  assumes "q \<noteq> [] \<or> f \<noteq> []" "list_all (\<lambda>c. c \<noteq> CHR ''#'') q" "safe_string (q @ f)"
  shows "\<exists>q' f'. url_tail q f @ ''/'' = url_tail q' f' \<and> list_all (\<lambda>c. c \<noteq> CHR ''#'') q'
            \<and> safe_string (q' @ f') \<and> (q' \<noteq> [] \<or> f' \<noteq> [])"
proof (cases "f = []")
  case True
  with assms show ?thesis
    by (intro exI [of _ "q @ ''/''"] exI [of _ "[]"])
       (simp add: url_tail_def safe_string_def unsafe_url_byte_def)
next
  case False
  with assms show ?thesis
    by (intro exI [of _ q] exI [of _ "f @ ''/''"])
       (simp add: url_tail_def safe_string_def unsafe_url_byte_def)
qed

lemma join_step:
  assumes wf: "wellformed N u"
  shows "\<exists>u'. webpath_truediv N u seg = Inr u' \<and> wellformed N u'
           \<and> scheme (wp_parts u') = scheme (wp_parts u)
           \<and> netloc (wp_parts u') = netloc (wp_parts u)
           \<and> path (wp_parts u') = normalized_join (path (wp_parts u)) seg"
proof -
  define P where "P = wp_parts u"
  define np where "np = normalized_join (path P) seg"
  define hd_url where "hd_url = scheme P @ ''://'' @ netloc P @ np"
  define P1 where "P1 = P\<lparr>path := np\<rparr>"
  define url2 where "url2 = (if wp_trailing_slash u \<and> \<not> endswith (urlunsplit P1) ''/''
                              then urlunsplit P1 @ ''/'' else urlunsplit P1)"
  have ok: "parts_ok N P" using wf by (simp add: wellformed_def P_def)
  obtain x where x: "webpath_init N (wp_url u) = Inr x"
    using wf by (auto simp: wellformed_def split: sum.splits)
  have flag_x: "wp_trailing_slash x \<longrightarrow> query P \<noteq> [] \<or> fragment P \<noteq> []"
    using wf x by (simp add: wellformed_def P_def)
  have flag_u: "wp_trailing_slash u \<longrightarrow> query P \<noteq> [] \<or> fragment P \<noteq> []"
    using wf by (simp add: wellformed_def P_def)
  have code_path: "(if path P \<noteq> [] then rstrip ''/'' (path P) @ ''/'' @ quote (lstrip ''/'' seg)
                    else ''/'' @ quote (lstrip ''/'' seg)) = np"
    by (simp add: np_def normalized_join_def rstrip_def)
  have pa: "path P = [] \<or> take 1 (path P) = ''/''" "list_all (\<lambda>c. c \<notin> set ''?#'') (path P)"
    "safe_string (path P)"
    using ok by (auto simp: parts_ok_def)
  have np: "take 1 np = ''/''" "list_all (\<lambda>c. c \<notin> set ''?#'') np" "safe_string np"
    "last np \<notin> set whitespace"
    unfolding np_def by (rule join_path_props [OF pa])+
  have P1: "scheme P1 = scheme P" "netloc P1 = netloc P" "path P1 = np" "query P1 = query P"
    "fragment P1 = fragment P"
    by (simp_all add: P1_def)
  have url1: "urlunsplit P1 = hd_url @ url_tail (query P) (fragment P)"
    using urlunsplit_assembled [of P1] ok np(1) P1 by (simp add: parts_ok_def hd_url_def)
  have "\<exists>q f. url2 = hd_url @ url_tail q f \<and> list_all (\<lambda>c. c \<noteq> CHR ''#'') q \<and> safe_string (q @ f)
           \<and> (q = [] \<and> f = [] \<longrightarrow> query P = [] \<and> fragment P = [])"
  proof (cases "wp_trailing_slash u \<and> \<not> endswith (urlunsplit P1) ''/''")
    case True
    then have "query P \<noteq> [] \<or> fragment P \<noteq> []" using flag_u by simp
    moreover have "list_all (\<lambda>c. c \<noteq> CHR ''#'') (query P)" "safe_string (query P @ fragment P)"
      using ok by (simp_all add: parts_ok_def)
    ultimately obtain q f where t: "url_tail (query P) (fragment P) @ ''/'' = url_tail q f"
      and "list_all (\<lambda>c. c \<noteq> CHR ''#'') q" "safe_string (q @ f)" "q \<noteq> [] \<or> f \<noteq> []"
      using slash_into_tail [of "query P" "fragment P"] by blast
    moreover have "url2 = hd_url @ url_tail q f"
      using True url1 t by (simp add: url2_def)
    ultimately show ?thesis by blast
  next
    case False
    then have "url2 = hd_url @ url_tail (query P) (fragment P)"
      using url1 by (simp add: url2_def)
    moreover have "list_all (\<lambda>c. c \<noteq> CHR ''#'') (query P)" "safe_string (query P @ fragment P)"
      using ok by (simp_all add: parts_ok_def)
    ultimately show ?thesis by blast
  qed
  then obtain q f where url2: "url2 = hd_url @ url_tail q f"
    and qf: "list_all (\<lambda>c. c \<noteq> CHR ''#'') q" "safe_string (q @ f)"
    and empty: "q = [] \<and> f = [] \<longrightarrow> query P = [] \<and> fragment P = []"
    by blast
  define P2 where "P2 = P\<lparr>path := np, query := q, fragment := f\<rparr>"
  have P2: "scheme P2 = scheme P" "netloc P2 = netloc P" "path P2 = np" "query P2 = q" "fragment P2 = f"
    by (simp_all add: P2_def)
  have ok2: "parts_ok N P2"
    using ok np qf unfolding parts_ok_def P2 by simp
  have split2: "urlsplit N url2 = Inr P2"
    using urlsplit_roundtrip [OF ok2] np(1) url2 unfolding P2 hd_url_def by simp
  define u' where "u' = u\<lparr>wp_url := url2, wp_parts := P2, wp_trailing_slash := wp_trailing_slash x\<rparr>"
  have "webpath_truediv N u seg = replace N u (\<lambda>p. p\<lparr>path := np\<rparr>)"
    unfolding webpath_truediv_def Let_def P_def [symmetric] code_path ..
  also have "\<dots> = (case urlsplit N url2 of Inl e \<Rightarrow> Inl e
                    | Inr parts \<Rightarrow> clone N u (\<lambda>p. p\<lparr>wp_url := url2, wp_parts := parts\<rparr>))"
    unfolding replace_def Let_def P_def [symmetric] P1_def [symmetric] url2_def [symmetric] ..
  also have "\<dots> = Inr u'"
    unfolding split2 clone_def x u'_def by simp
  finally have result: "webpath_truediv N u seg = Inr u'" .
  obtain r where r: "np = CHR ''/'' # r" using np(1) by (cases np) auto
  have "safe_string (r @ url_tail q f)"
    using np(3) qf(2) r by (auto simp: url_tail_def safe_string_def unsafe_url_byte_def)
  moreover have "scheme P \<in> set http_schemes" "netloc P \<noteq> []" "list_all (\<lambda>c. c \<notin> set ''/?#'') (netloc P)"
    "safe_string (netloc P)" "netloc_error N (netloc P) = None"
    using ok by (simp_all add: parts_ok_def)
  ultimately obtain x' where "webpath_init N (scheme P @ ''://'' @ netloc P @ CHR ''/'' # r @ url_tail q f) = Inr x'"
    using init_assembled [of "scheme P" "netloc P" N "r @ url_tail q f"] by blast
  then have x': "webpath_init N url2 = Inr x'"
    using url2 r by (simp add: hd_url_def)
  have flag_x': "wp_trailing_slash x' \<longrightarrow> q \<noteq> [] \<or> f \<noteq> []"
  proof (cases "q = [] \<and> f = []")
    case True
    then have "url2 = scheme P2 @ ''://'' @ netloc P2 @ path P2"
      using url2 unfolding P2 by (simp add: url_tail_def hd_url_def)
    moreover obtain y where "webpath_init N (scheme P2 @ ''://'' @ netloc P2 @ path P2) = Inr y"
      "\<not> wp_trailing_slash y"
      using init_without_tail [OF ok2] np(1) np(4) True unfolding P2 by blast
    ultimately show ?thesis using x' by simp
  next
    case False
    then show ?thesis by simp
  qed
  have "wellformed N u'"
    unfolding wellformed_def u'_def using ok2 flag_x empty x' flag_x' P2 by auto
  moreover have "scheme (wp_parts u') = scheme (wp_parts u)" "netloc (wp_parts u') = netloc (wp_parts u)"
    "path (wp_parts u') = normalized_join (path (wp_parts u)) seg"
    by (simp_all add: u'_def P2 np_def P_def)
  ultimately show ?thesis using result by blast
qed

lemma partition_rebuild:
  "partition_at c s = (a, found, b) \<Longrightarrow> s = a @ (if found then c # b else [])"
proof -
  assume p: "partition_at c s = (a, found, b)"
  have s: "s = takeWhile (\<lambda>x. x \<noteq> c) s @ dropWhile (\<lambda>x. x \<noteq> c) s" by simp
  have a: "a = takeWhile (\<lambda>x. x \<noteq> c) s" and f: "found = (length a < length s)"
    and b: "b = drop (Suc (length a)) s"
    using p by (auto simp: partition_at_def Let_def)
  show ?thesis
  proof (cases "dropWhile (\<lambda>x. x \<noteq> c) s")
    case Nil
    then have "a = s" using a s by simp
    then show ?thesis using f by simp
  next
    case (Cons d ds)
    then have "d = c" using hd_dropWhile [of "\<lambda>x. x \<noteq> c" s] by auto
    then have eq: "s = a @ c # ds" using s a Cons by simp
    then have "b = ds" using b by (metis append_eq_conv_conj drop_Suc_Cons drop_append length_append_singleton
          append.assoc append_Cons append_Nil drop_eq_Nil2 list.size(3) order_refl same_append_eq
          cancel_comm_monoid_add_class.diff_cancel drop0)
    then show ?thesis using eq f by auto
  qed
qed

lemma partition_sets:
  assumes "partition_at c s = (a, found, b)"
  shows "\<forall>x\<in>set a. x \<noteq> c" "set a \<subseteq> set s" "set b \<subseteq> set s"
proof -
  have a: "a = takeWhile (\<lambda>x. x \<noteq> c) s" and b: "b = drop (Suc (length a)) s"
    using assms by (auto simp: partition_at_def Let_def)
  show "\<forall>x\<in>set a. x \<noteq> c" unfolding a by (metis set_takeWhileD)
  show "set a \<subseteq> set s" unfolding a by (metis set_takeWhileD subsetI)
  show "set b \<subseteq> set s" unfolding b by (rule set_drop_subset)
qed

lemma urlsplit_shape:
  assumes "urlsplit N s = Inr p" "netloc p \<noteq> []"
  shows "\<exists>pre u3 u4 hf hq.
           filter (\<lambda>c. \<not> unsafe_url_byte c) (dropWhile c0_control_or_space s)
             = pre @ ''//'' @ netloc p @ u3
           \<and> (\<forall>c\<in>set (netloc p). c \<notin> set ''/?#'')
           \<and> (u3 = [] \<or> hd u3 \<in> set ''/?#'')
           \<and> partition_at CHR ''#'' u3 = (u4, hf, fragment p)
           \<and> partition_at CHR ''?'' u4 = (path p, hq, query p)
           \<and> netloc_error N (netloc p) = None"
proof -
  define u1 where "u1 = filter (\<lambda>c. \<not> unsafe_url_byte c) (dropWhile c0_control_or_space s)"
  obtain sch u2 where ss: "split_scheme u1 = (sch, u2)" by (cases "split_scheme u1")
  define d where "d = drop 2 u2"
  define net where "net = (if take 2 u2 = ''//'' then takeWhile (\<lambda>c. c \<notin> set ''/?#'') d else [])"
  define u3 where "u3 = (if take 2 u2 = ''//'' then drop (2 + length net) u2 else u2)"
  obtain u4 hf frag where pf: "partition_at CHR ''#'' u3 = (u4, hf, frag)"
    by (cases "partition_at CHR ''#'' u3")
  obtain u5 hq qry where pq: "partition_at CHR ''?'' u4 = (u5, hq, qry)"
    by (cases "partition_at CHR ''?'' u4")
  have sn: "(if take 2 u2 = ''//'' then splitnetloc u2 else ([], u2)) = (net, u3)"
    by (simp add: splitnetloc_def Let_def net_def u3_def d_def)
  have split: "urlsplit N s = (case netloc_error N net of Some msg \<Rightarrow> Inl (ValueError msg)
       | None \<Rightarrow> Inr \<lparr>scheme = sch, netloc = net, path = u5, query = qry, fragment = frag\<rparr>)"
    by (simp only: urlsplit_def Let_def u1_def [symmetric] ss prod.case sn pf pq)
  have ne: "netloc_error N net = None" and p: "p = \<lparr>scheme = sch, netloc = net, path = u5, query = qry, fragment = frag\<rparr>"
    using assms(1) split by (auto split: option.splits)
  have net_ne: "net \<noteq> []" using assms(2) p by simp
  then have slashes: "take 2 u2 = ''//''" by (auto simp: net_def split: if_splits)
  have net: "net = takeWhile (\<lambda>c. c \<notin> set ''/?#'') d" using slashes by (simp add: net_def)
  have "drop (2 + length net) u2 = drop (length net) d" by (simp add: d_def add.commute)
  also have "\<dots> = dropWhile (\<lambda>c. c \<notin> set ''/?#'') d"
    unfolding net by (metis append_eq_conv_conj takeWhile_dropWhile_id)
  finally have u3: "u3 = dropWhile (\<lambda>c. c \<notin> set ''/?#'') d" using slashes by (simp add: u3_def)
  have "u2 = take 2 u2 @ d" by (simp add: d_def)
  then have u2: "u2 = ''//'' @ net @ u3" using slashes net u3 by simp
  have "u2 = drop 0 u1 \<or> u2 = drop (Suc (length (takeWhile (\<lambda>c. c \<noteq> CHR '':'') u1))) u1"
    using ss by (auto simp: split_scheme_def Let_def split: if_splits)
  then obtain n where "u2 = drop n u1" by blast
  then have "u1 = take n u1 @ u2" by simp
  then have "\<exists>pre. u1 = pre @ u2" by blast
  then obtain pre where "u1 = pre @ ''//'' @ net @ u3" using u2 by auto
  moreover have "\<forall>c\<in>set net. c \<notin> set ''/?#''" unfolding net by (metis set_takeWhileD)
  moreover have "u3 = [] \<or> hd u3 \<in> set ''/?#''" unfolding u3 using hd_dropWhile by blast
  ultimately show ?thesis
    using pf pq ne p unfolding u1_def by (intro exI [of _ pre] exI [of _ u3] exI [of _ u4] exI [of _ hf] exI [of _ hq]) simp
qed

lemma last_dropWhile:
  "xs \<noteq> [] \<Longrightarrow> \<not> P (last xs) \<Longrightarrow> dropWhile P xs \<noteq> [] \<and> last (dropWhile P xs) = last xs"
  by (induction xs) (auto split: if_splits)

lemma last_filter:
  "xs \<noteq> [] \<Longrightarrow> Q (last xs) \<Longrightarrow> filter Q xs \<noteq> [] \<and> last (filter Q xs) = last xs"
  by (induction xs) (auto split: if_splits)

lemma strip_idem: "strip (strip s) = strip s"
proof -
  define y where "y = lstrip whitespace s"
  have y: "y = [] \<or> hd y \<notin> set whitespace" unfolding y_def by (rule lstrip_no_leading)
  obtain t where t: "y = rstrip whitespace y @ t" using rstrip_prefix by blast
  have "lstrip whitespace (rstrip whitespace y) = rstrip whitespace y"
  proof (cases "rstrip whitespace y")
    case Nil
    then show ?thesis by (simp add: lstrip_def)
  next
    case (Cons c cs)
    with t have "hd y = c" "y \<noteq> []" by (metis append_Cons list.sel(1), metis append_is_Nil_conv list.distinct(1))
    with y have "c \<notin> set whitespace" by auto
    with Cons show ?thesis by (simp add: lstrip_def)
  qed
  moreover have "rstrip whitespace (rstrip whitespace y) = rstrip whitespace y"
    by (simp add: rstrip_def)
  ultimately show ?thesis by (simp add: strip_def y_def)
qed

lemma path_starts_with_slash:
  assumes "u3 = [] \<or> hd u3 \<in> set ''/?#''" "partition_at CHR ''#'' u3 = (u4, hf, f)"
    "partition_at CHR ''?'' u4 = (pa, hq, q)"
  shows "pa = [] \<or> take 1 pa = ''/''"
proof (cases u3)
  case Nil
  with assms show ?thesis by (auto simp: partition_at_def Let_def)
next
  case (Cons c t)
  with assms(1) have "c = CHR ''/'' \<or> c = CHR ''?'' \<or> c = CHR ''#''" by auto
  with Cons assms(2,3) show ?thesis by (auto simp: partition_at_def Let_def)
qed

lemma init_fields:
  assumes "webpath_init N s = Inr u"
  shows "strip s \<noteq> []" "urlsplit N (strip s) = Inr (wp_parts u)" "scheme (wp_parts u) \<in> set http_schemes"
    "netloc (wp_parts u) \<noteq> []" "wp_url u = strip s"
    "wp_trailing_slash u = (endswith (strip s) ''/'' \<and> \<not> endswith (path (wp_parts u)) ''/'')"
  using assms
  by (auto simp: webpath_init_def Let_def http_schemes_def split: sum.splits if_splits)

lemma init_wellformed:
  assumes init: "webpath_init N s = Inr u"
  shows "wellformed N u"
proof -
  define p where "p = wp_parts u"
  define s0 where "s0 = strip s"
  define u1 where "u1 = filter (\<lambda>c. \<not> unsafe_url_byte c) (dropWhile c0_control_or_space s0)"
  note f = init_fields [OF init, folded p_def s0_def]
  obtain pre u3 u4 hf hq where shape: "u1 = pre @ ''//'' @ netloc p @ u3"
    and nl: "\<forall>c\<in>set (netloc p). c \<notin> set ''/?#''"
    and u3: "u3 = [] \<or> hd u3 \<in> set ''/?#''"
    and pf: "partition_at CHR ''#'' u3 = (u4, hf, fragment p)"
    and pq: "partition_at CHR ''?'' u4 = (path p, hq, query p)"
    and ne: "netloc_error N (netloc p) = None"
    using urlsplit_shape [OF f(2) f(4)] unfolding u1_def by blast
  have safe1: "\<forall>c\<in>set u1. \<not> unsafe_url_byte c" by (simp add: u1_def)
  note sf = partition_sets [OF pf]
  note sq = partition_sets [OF pq]
  have in_u1: "set (netloc p) \<subseteq> set u1" "set u3 \<subseteq> set u1"
    using shape by auto
  have safe: "safe_string (netloc p @ path p @ query p @ fragment p)"
  proof -
    have "set (path p) \<subseteq> set u1" "set (query p) \<subseteq> set u1" "set (fragment p) \<subseteq> set u1"
      using in_u1 sf(2,3) sq(2,3) by blast+
    then show ?thesis
      using safe1 in_u1(1) by (auto simp: safe_string_def list_all_iff)
  qed
  have path1: "path p = [] \<or> take 1 (path p) = ''/''"
    using path_starts_with_slash [OF u3 pf pq] .
  have path2: "list_all (\<lambda>c. c \<notin> set ''?#'') (path p)"
    using sq(1,2) sf(1) by (auto simp: list_all_iff)
  have query1: "list_all (\<lambda>c. c \<noteq> CHR ''#'') (query p)"
    using sq(3) sf(1) by (auto simp: list_all_iff)
  have ok: "parts_ok N p"
    unfolding parts_ok_def using f(3) f(4) nl ne path1 path2 query1 safe by (simp add: list_all_iff)
  have flag: "wp_trailing_slash u \<longrightarrow> query p \<noteq> [] \<or> fragment p \<noteq> []"
  proof (intro impI, rule ccontr)
    assume t: "wp_trailing_slash u" and "\<not> (query p \<noteq> [] \<or> fragment p \<noteq> [])"
    then have e: "query p = []" "fragment p = []" by simp_all
    from t f(6) have s0: "s0 \<noteq> []" "last s0 = CHR ''/''" and pe: "\<not> endswith (path p) ''/''"
      by (simp_all add: endswith_slash)
    have "\<not> c0_control_or_space (last s0)" using s0 by (simp add: c0_control_or_space_def)
    then have d: "dropWhile c0_control_or_space s0 \<noteq> []"
      "last (dropWhile c0_control_or_space s0) = CHR ''/''"
      using last_dropWhile [of s0 c0_control_or_space] s0 by simp_all
    have "\<not> unsafe_url_byte (last (dropWhile c0_control_or_space s0))"
      using d by (simp add: unsafe_url_byte_def)
    then have l1: "u1 \<noteq> []" "last u1 = CHR ''/''"
      using last_filter [of "dropWhile c0_control_or_space s0" "\<lambda>c. \<not> unsafe_url_byte c"] d
      by (simp_all add: u1_def)
    have "u3 \<noteq> []"
    proof
      assume "u3 = []"
      then have "last u1 = last (netloc p)" using shape f(4) by simp
      then have "CHR ''/'' \<in> set (netloc p)" using l1 f(4) by (metis last_in_set)
      then show False using nl by auto
    qed
    then have l3: "last u3 = CHR ''/''" using shape l1 by simp
    have r3: "u3 = u4 @ (if hf then ''#'' else [])"
      using partition_rebuild [OF pf] e by simp
    have "\<not> hf"
    proof
      assume hf
      then have "last u3 = CHR ''#''" using r3 by simp
      then show False using l3 by simp
    qed
    then have u4: "u4 = u3" using r3 by simp
    have r4: "u4 = path p @ (if hq then ''?'' else [])"
      using partition_rebuild [OF pq] e by simp
    have "\<not> hq"
    proof
      assume hq
      then have "last u4 = CHR ''?''" using r4 by simp
      then show False using l3 u4 by simp
    qed
    then have "path p = u3" using r4 u4 by simp
    then have "endswith (path p) ''/''"
      using \<open>u3 \<noteq> []\<close> l3 by (simp add: endswith_slash)
    then show False using pe by simp
  qed
  have "webpath_init N (wp_url u) = Inr u"
    using init f(5) strip_idem [of s] by (simp add: webpath_init_def s0_def)
  then show ?thesis
    unfolding wellformed_def p_def [symmetric] using ok flag by simp
qed

lemma joins_wellformed:
  "wellformed N u \<Longrightarrow>
     \<exists>u'. joins N u segs = Inr u' \<and> wellformed N u'
        \<and> scheme (wp_parts u') = scheme (wp_parts u)
        \<and> netloc (wp_parts u') = netloc (wp_parts u)
        \<and> path (wp_parts u') = foldl normalized_join (path (wp_parts u)) segs"
proof (induction segs arbitrary: u)
  case Nil
  then show ?case by simp
next
  case (Cons seg segs)
  obtain u1 where s: "webpath_truediv N u seg = Inr u1" "wellformed N u1"
    "scheme (wp_parts u1) = scheme (wp_parts u)" "netloc (wp_parts u1) = netloc (wp_parts u)"
    "path (wp_parts u1) = normalized_join (path (wp_parts u)) seg"
    using join_step [OF Cons.prems, of seg] by blast
  obtain u2 where t: "joins N u1 segs = Inr u2" "wellformed N u2"
    "scheme (wp_parts u2) = scheme (wp_parts u1)" "netloc (wp_parts u2) = netloc (wp_parts u1)"
    "path (wp_parts u2) = foldl normalized_join (path (wp_parts u1)) segs"
    using Cons.IH [OF s(2)] by blast
  show ?case using s t by simp
qed

lemma junction_left: "\<not> endswith (rstrip ''/'' pa) ''/''"
  using rstrip_no_trailing [of "''/''" pa] by (auto simp: endswith_slash)

lemma junction_right: "\<not> startswith (quote (lstrip ''/'' seg)) ''/''"
proof -
  have "lstrip ''/'' seg = [] \<or> hd (lstrip ''/'' seg) \<noteq> CHR ''/''"
    using lstrip_no_leading [of "''/''" seg] by simp
  then have "quote (lstrip ''/'' seg) = [] \<or> hd (quote (lstrip ''/'' seg)) \<noteq> CHR ''/''"
    by (cases "lstrip ''/'' seg") (auto simp: quote_def quote_char_def quote_safe_def)
  then show ?thesis
    by (cases "quote (lstrip ''/'' seg)") (auto simp: startswith_def)
qed


subsection \<open>The path after a sequence of joins\<close>

text \<open>
  Claim C9, as stated: after any sequence of joins the path has no double slash. This fails:
  \<open>quote\<close> keeps \<open>/\<close>, and \<open>__truediv__\<close> strips slashes only at the two ends that meet, so a
  segment with \<open>//\<close> inside leaves \<open>//\<close> in the path. Joining \<open>b//c\<close> to
  \<open>https://api.example.com/items\<close> gives the path \<open>/items/b//c\<close>.
\<close>

theorem join_keeps_inner_slashes_counterexample:
  "webpath_truediv example_checks example_path ''b//c''
     = Inr (example_path\<lparr>wp_url := ''https://api.example.com/items/b//c'',
              wp_parts := (wp_parts example_path)\<lparr>path := ''/items/b//c''\<rparr>\<rparr>)
   \<and> sublist ''//'' ''/items/b//c''"
  by (simp add: join_eval url_eval example_checks_def example_path_def sublist_code)


text \<open>
  Claim C9, amended: for every URL that the constructor accepts and every sequence of segments,
  every join of the sequence returns a \<open>WebPath\<close> (none raises), scheme and host stay those of the
  base, and the path is the fold of the slash-normalized concatenation over the segments: each join
  turns the previous path \<open>p\<close> into \<open>p.rstrip('/') + '/' + quote(segment.lstrip('/'))\<close>. At each
  junction the left part does not end in \<open>/\<close> and the encoded segment does not start with \<open>/\<close>, so
  exactly one \<open>/\<close> separates them whether or not the previous path ended in one; and the encoded
  segment consists of the characters \<open>quote\<close> keeps (letters, digits, \<open>_.-~\<close> and \<open>/\<close>) and of
  escapes \<open>%XX\<close>. Slashes inside a segment or inside the base path are kept as they are.
\<close>

theorem join_sequence_paths:
  assumes "webpath_init N s = Inr base"
  shows "\<exists>u. joins N base segs = Inr u
           \<and> scheme (wp_parts u) = scheme (wp_parts base)
           \<and> netloc (wp_parts u) = netloc (wp_parts base)
           \<and> path (wp_parts u) = foldl normalized_join (path (wp_parts base)) segs
           \<and> (\<forall>pa seg. \<not> endswith (rstrip ''/'' pa) ''/''
                 \<and> \<not> startswith (quote (lstrip ''/'' seg)) ''/''
                 \<and> list_all quoted_char (quote (lstrip ''/'' seg)))"
  using joins_wellformed [OF init_wellformed [OF assms], of segs] junction_left junction_right quote_chars
  by blast

theorem join_sequence_paths_witness:
  "webpath_init example_checks ''https://api.example.com/items'' = Inr example_path
   \<and> joins example_checks example_path [''/a b/'', ''c'']
       = Inr (example_path\<lparr>wp_url := ''https://api.example.com/items/a%20b/c'',
                wp_parts := (wp_parts example_path)\<lparr>path := ''/items/a%20b/c''\<rparr>\<rparr>)
   \<and> foldl normalized_join ''/items'' [''/a b/'', ''c''] = ''/items/a%20b/c''
   \<and> normalized_join ''/items'' ''/a b/'' = ''/items/a%20b/''"
  using join_sequence_paths [of example_checks "''https://api.example.com/items''" example_path "[''/a b/'', ''c'']"]
  by (simp add: join_eval url_eval example_checks_def example_path_def normalized_join_def)


end
